theory Spec2Isabelle
  imports Main
begin

section \<open>Values, promises and host callbacks\<close>

text \<open>
  The runtime under study is the class \<open>FiniteStateMachine\<close>: named states with optional
  \<open>enter\<close>/\<open>exit\<close> callbacks and further named event handlers, guarded transitions,
  a history of the states left behind, and a queue of transition requests.

  JavaScript values are kept to what the runtime inspects: it only ever asks whether a
  value is an instance of \<open>Error\<close>. A \<open>TypeError\<close> raised by the engine itself (reading a
  property of \<open>undefined\<close>) is its own constructor, since its message depends on the engine.

  A host callback returns a promise, as the declared types of \<open>enter\<close>, \<open>exit\<close> and of the
  transition checks say. The model records how that promise settles: \<open>Resolved v\<close> or
  \<open>Rejected e\<close> (a callback that throws rejects as well, since every caller is an async
  function). A callback is a function of its argument list; it does not call back into
  the machine. Console output (\<open>log\<close>, governed by the debug flag) and the data bag
  (\<open>getData\<close>, \<open>setData\<close>) touch no other field and are left out.

  The third outcome, \<open>Unmodelled\<close>, is not a way for a promise to settle: it marks a
  callback whose effect is not described here. What every plain object inherits from
  the engine is of that kind when it is called as a callback (see \<open>beyond\<close> below). A run
  that makes such a call ends with this outcome at the point of the call.
\<close>

datatype jsval =
    JUndefined
  | JBool bool
  | JNum int
  | JStr string
  | JError string
  | JTypeError

fun instanceofError :: "jsval \<Rightarrow> bool" where
  "instanceofError (JError msg) = True"
| "instanceofError JTypeError = True"
| "instanceofError v = False"

datatype 'a outcome = Resolved 'a | Rejected jsval | Unmodelled

type_synonym handler = "jsval list \<Rightarrow> jsval outcome"

type_synonym EventDefinition = "string \<rightharpoonup> handler"

type_synonym TransitionCheckFunction = "jsval list \<Rightarrow> jsval outcome"

record PreviousState =
  name :: string
  args :: "jsval list"

datatype direction = forward | backward

datatype TransitionPromise = Request string direction "jsval list"

text \<open>
  Which host callbacks a call invoked, and with which arguments, is part of what the
  runtime does. The field \<open>invocations\<close> records it: \<open>Checked from to args\<close> for the
  transition check found for the pair (from, to), \<open>Invoked state property args\<close> for the
  callback found under a property of a state object. No branch of the runtime reads
  the field.
\<close>

datatype invocation =
    Checked string string "jsval list"
  | Invoked string string "jsval list"

text \<open>
  \<open>_states\<close> and \<open>_transitions\<close> are plain objects. \<open>states\<close> and \<open>transitions\<close> hold their own
  properties; \<open>statesProto\<close> is the prototype of \<open>_states\<close> when an assignment to
  \<open>_states["__proto__"]\<close> has replaced it (\<open>None\<close>: it is \<open>Object.prototype\<close>).
\<close>

record FiniteStateMachine =
  states :: "string \<rightharpoonup> EventDefinition"
  statesProto :: "EventDefinition option"
  transitions :: "string \<rightharpoonup> (string \<rightharpoonup> TransitionCheckFunction)"
  initialStateName :: string
  currentStateName :: string
  previousStates :: "PreviousState list"
  transitionQueue :: "TransitionPromise list"
  transitioning :: bool
  debug :: bool
  invocations :: "invocation list"

text \<open>The constructor without initial data.\<close>

definition newFSM :: FiniteStateMachine where
  "newFSM = \<lparr>states = Map.empty, statesProto = None, transitions = Map.empty,
     initialStateName = '''', currentStateName = '''', previousStates = [],
     transitionQueue = [], transitioning = False, debug = False, invocations = []\<rparr>"

definition dq :: string where
  "dq = [CHR 0x22]"

definition invoke :: "invocation \<Rightarrow> FiniteStateMachine \<Rightarrow> FiniteStateMachine" where
  "invoke i m = m\<lparr>invocations := invocations m @ [i]\<rparr>"

section \<open>Property lookup on plain objects\<close>

text \<open>
  A lookup \<open>obj[name]\<close> on a plain object finds the object's own property or, failing
  that, what the object inherits. Every plain object inherits the properties of
  \<open>Object.prototype\<close>, listed below: eleven functions of the engine, and the accessor
  \<open>__proto__\<close>, which yields the prototype of the object.

  A state definition or a table of transition checks handed over by the host is a plain
  object with own data properties, given here by the map of these properties.
  \<open>property obj\<close> is the object as the runtime reads it: an own property is found, an
  inherited one is found as well, and nothing is found under any other name. What
  happens when the runtime calls what it found under an inherited name depends on the
  property and on the engine; the model does not say: such a callback is \<open>beyond\<close>.

  \<open>opaque\<close> stands for an object that is no plain object of the host: a function of the
  engine, or a function of the host found where a state object or a table of checks is
  expected. Of such an object only this is used: it is there, and it has no property
  \<open>enter\<close> or \<open>exit\<close>. Whether it has any other property is not known, so any other
  property is \<open>beyond\<close>.
\<close>

definition objectPrototypeNames :: "string list" where
  "objectPrototypeNames =
     [''constructor'', ''__defineGetter__'', ''__defineSetter__'', ''hasOwnProperty'',
      ''__lookupGetter__'', ''__lookupSetter__'', ''isPrototypeOf'', ''propertyIsEnumerable'',
      ''toString'', ''valueOf'', ''__proto__'', ''toLocaleString'']"

definition beyond :: handler where
  "beyond rest = Unmodelled"

definition property :: "EventDefinition \<Rightarrow> EventDefinition" where
  "property obj propertyName =
     (case obj propertyName of
        Some h \<Rightarrow> Some h
      | None \<Rightarrow> if propertyName \<in> set objectPrototypeNames then Some beyond else None)"

definition opaque :: EventDefinition where
  "opaque propertyName =
     (if propertyName = ''enter'' \<or> propertyName = ''exit'' then None else Some beyond)"

section \<open>Registries\<close>

text \<open>
  \<open>this._states[name] = definition\<close> creates or overwrites an own property, except for the
  name \<open>__proto__\<close>: unless an own or inherited data property of that name is in the way,
  the assignment reaches the setter of \<open>Object.prototype\<close> and makes \<open>definition\<close> the
  prototype of \<open>_states\<close>. \<open>!this._initialStateName\<close> holds exactly for the empty string.
\<close>

definition protoSetterReached :: "FiniteStateMachine \<Rightarrow> bool" where
  "protoSetterReached m =
     (states m ''__proto__'' = None \<and>
      (case statesProto m of None \<Rightarrow> True | Some proto \<Rightarrow> proto ''__proto__'' = None))"

definition defineState :: "string \<Rightarrow> EventDefinition \<Rightarrow> FiniteStateMachine \<Rightarrow> FiniteStateMachine" where
  "defineState stateName definition m =
     (let m1 = (if stateName = ''__proto__'' \<and> protoSetterReached m
                then m\<lparr>statesProto := Some definition\<rparr>
                else m\<lparr>states := (states m)(stateName \<mapsto> definition)\<rparr>)
      in if initialStateName m1 = '''' then m1\<lparr>initialStateName := stateName\<rparr> else m1)"

text \<open>
  \<open>this._states[stateName]\<close>: the own property; else what the replaced prototype has under
  the name (a function of the host, or what that prototype inherits); else what
  \<open>Object.prototype\<close> has. Under \<open>__proto__\<close> the accessor yields the prototype of \<open>_states\<close>
  itself.
\<close>

definition getState :: "FiniteStateMachine \<Rightarrow> string \<Rightarrow> EventDefinition option" where
  "getState m stateName =
     (case states m stateName of
        Some definition \<Rightarrow> Some (property definition)
      | None \<Rightarrow>
          (case statesProto m of
             Some proto \<Rightarrow>
               (if stateName = ''__proto__'' \<and> proto ''__proto__'' = None then Some (property proto)
                else case property proto stateName of Some h \<Rightarrow> Some opaque | None \<Rightarrow> None)
           | None \<Rightarrow>
               (if stateName = ''__proto__'' then Some (property Map.empty)
                else if stateName \<in> set objectPrototypeNames then Some opaque else None)))"

text \<open>
  \<open>defineTransition\<close> returns \<open>false\<close> when a name is empty and the machine otherwise. Two
  kinds of call write to an object that is not a table of the machine, and are outside
  the model: when \<open>_transitions[fromState]\<close> is not an own property but inherited, the
  check is stored on that inherited object of the engine; and an assignment to
  \<open>__proto__\<close> of a table of checks makes the check the prototype of the table.
\<close>

datatype returned = Handle FiniteStateMachine | Falsy | OutsideModel

definition defineTransition ::
  "string \<Rightarrow> string \<Rightarrow> TransitionCheckFunction \<Rightarrow> FiniteStateMachine \<Rightarrow> returned" where
  "defineTransition fromState toState transitionCheck m =
     (if fromState \<noteq> '''' \<and> toState \<noteq> '''' then
        (case transitions m fromState of
           Some checks \<Rightarrow>
             if toState = ''__proto__'' \<and> checks ''__proto__'' = None then OutsideModel
             else Handle (m\<lparr>transitions := (transitions m)(fromState \<mapsto> checks(toState \<mapsto> transitionCheck))\<rparr>)
         | None \<Rightarrow>
             if fromState \<in> set objectPrototypeNames \<or> toState = ''__proto__'' then OutsideModel
             else Handle (m\<lparr>transitions := (transitions m)(fromState \<mapsto> [toState \<mapsto> transitionCheck])\<rparr>))
      else Falsy)"

section \<open>Initial state\<close>

definition initialState ::
  "string \<Rightarrow> jsval list \<Rightarrow> FiniteStateMachine \<Rightarrow> jsval outcome \<times> FiniteStateMachine" where
  "initialState stateName rest m =
     (case getState m stateName of
        None \<Rightarrow>
          (Rejected (JError (''Cannot set initial state '' @ dq @ stateName @ dq
             @ '' because it does not exist!'')), m)
      | Some newStateObj \<Rightarrow>
          (let m1 = m\<lparr>initialStateName := stateName\<rparr>;
               m2 = m1\<lparr>currentStateName := stateName\<rparr>;
               m3 = m2\<lparr>previousStates := []\<rparr>
           in case newStateObj ''enter'' of
                Some enter \<Rightarrow> (enter rest, invoke (Invoked stateName ''enter'' rest) m3)
              | None \<Rightarrow> (Resolved JUndefined, m3)))"

section \<open>Exit/enter sequencing\<close>

definition goToNextState ::
  "string \<Rightarrow> direction \<Rightarrow> jsval list \<Rightarrow> EventDefinition \<Rightarrow> FiniteStateMachine
     \<Rightarrow> jsval outcome \<times> FiniteStateMachine" where
  "goToNextState newStateName dir rest newStateObj m =
     (let m1 = (if dir = forward
                then m\<lparr>previousStates := previousStates m @ [\<lparr>name = currentStateName m, args = rest\<rparr>]\<rparr>
                else m);
          m2 = m1\<lparr>currentStateName := newStateName\<rparr>;
          m3 = (if newStateName = initialStateName m2 then m2\<lparr>previousStates := []\<rparr> else m2)
      in case newStateObj ''enter'' of
           Some enter \<Rightarrow> (enter rest, invoke (Invoked newStateName ''enter'' rest) m3)
         | None \<Rightarrow> (Resolved JUndefined, m3))"

definition undefinedStateError :: "string \<Rightarrow> string \<Rightarrow> jsval" where
  "undefinedStateError cur new =
     JError (''Cannot change states from '' @ dq @ cur @ dq @ '' to '' @ dq @ new @ dq
       @ '' states because at least one is not defined.'')"

definition transitionStates ::
  "string \<Rightarrow> direction \<Rightarrow> jsval list \<Rightarrow> FiniteStateMachine \<Rightarrow> jsval outcome \<times> FiniteStateMachine" where
  "transitionStates newStateName dir rest m =
     (case getState m (currentStateName m) of
        None \<Rightarrow> (Resolved (undefinedStateError (currentStateName m) newStateName), m)
      | Some currentStateObj \<Rightarrow>
     (case getState m newStateName of
        None \<Rightarrow> (Resolved (undefinedStateError (currentStateName m) newStateName), m)
      | Some newStateObj \<Rightarrow>
     (case currentStateObj ''exit'' of
        Some exit \<Rightarrow>
          (let m1 = invoke (Invoked (currentStateName m) ''exit'' rest) m
           in case exit rest of
                Rejected e \<Rightarrow> (Rejected e, m1)
              | Unmodelled \<Rightarrow> (Unmodelled, m1)
              | Resolved exitResult \<Rightarrow>
                  if instanceofError exitResult then (Resolved exitResult, m1)
                  else goToNextState newStateName dir rest newStateObj m1)
      | None \<Rightarrow> goToNextState newStateName dir rest newStateObj m)))"

section \<open>Transition requests and the queue\<close>

text \<open>
  \<open>this._transitions[fromState][toState]\<close>, both lookups on plain objects. When the table
  for \<open>fromState\<close> is not an own property but inherited, it is \<open>Object.prototype\<close> itself
  under \<open>__proto__\<close> and a function of the engine under the other inherited names.
\<close>

definition transitionCheckFor ::
  "FiniteStateMachine \<Rightarrow> string \<Rightarrow> string \<Rightarrow> TransitionCheckFunction option" where
  "transitionCheckFor m fromState toState =
     (case transitions m fromState of
        Some checks \<Rightarrow> property checks toState
      | None \<Rightarrow>
          if fromState = ''__proto__'' then property Map.empty toState
          else if fromState \<in> set objectPrototypeNames then opaque toState
          else None)"

fun runTransition :: "TransitionPromise \<Rightarrow> FiniteStateMachine \<Rightarrow> jsval outcome \<times> FiniteStateMachine" where
  "runTransition (Request newStateName dir rest) m =
     (if newStateName = currentStateName m then (Resolved JUndefined, m)
      else
        (case transitionCheckFor m (currentStateName m) newStateName of
           None \<Rightarrow> transitionStates newStateName dir rest m
         | Some check \<Rightarrow>
             (let m1 = invoke (Checked (currentStateName m) newStateName rest) m
              in case check rest of
                   Rejected e \<Rightarrow> (Rejected e, m1)
                 | Unmodelled \<Rightarrow> (Unmodelled, m1)
                 | Resolved result \<Rightarrow>
                     if instanceofError result then (Resolved result, m1)
                     else transitionStates newStateName dir rest m1)))"

text \<open>
  \<open>_processTransition\<close> takes the head of the queue, awaits it and calls itself again. The
  result of the awaited request is dropped (\<open>yield func()\<close> is a statement); a rejection
  leaves the loop. After the length check \<open>shift\<close> cannot return \<open>undefined\<close>, so the branch
  \<open>if (!func)\<close> is never taken, and neither is \<open>if (!previousState)\<close> in \<open>exitState\<close>.
\<close>

function processTransition :: "FiniteStateMachine \<Rightarrow> jsval outcome \<times> FiniteStateMachine" where
  "processTransition m =
     (case transitionQueue m of
        [] \<Rightarrow> (Resolved JUndefined, m\<lparr>transitioning := False\<rparr>)
      | func # queue \<Rightarrow>
          (case runTransition func (m\<lparr>transitioning := True, transitionQueue := queue\<rparr>) of
             (Rejected e, m1) \<Rightarrow> (Rejected e, m1)
           | (Unmodelled, m1) \<Rightarrow> (Unmodelled, m1)
           | (Resolved r, m1) \<Rightarrow> processTransition (m1\<lparr>transitioning := False\<rparr>)))"
  by pat_completeness auto
termination
proof (relation "measure (\<lambda>m. length (transitionQueue m))")
  show "wf (measure (\<lambda>m. length (transitionQueue m)))" by simp
next
  fix m :: FiniteStateMachine and func queue x m1 r
  assume q: "transitionQueue m = func # queue"
    and x: "(x, m1) = runTransition func (m\<lparr>transitioning := True, transitionQueue := queue\<rparr>)"
  have g: "\<And>n d r obj m. transitionQueue (snd (goToNextState n d r obj m)) = transitionQueue m"
    by (simp add: goToNextState_def Let_def invoke_def split: option.splits)
  have t: "\<And>n d r m. transitionQueue (snd (transitionStates n d r m)) = transitionQueue m"
    by (simp add: transitionStates_def Let_def invoke_def g split: option.splits outcome.splits)
  have "\<And>m. transitionQueue (snd (runTransition func m)) = transitionQueue m"
    by (cases func) (simp add: Let_def invoke_def t split: option.splits outcome.splits)
  from this [of "m\<lparr>transitioning := True, transitionQueue := queue\<rparr>"] x [symmetric]
  have "transitionQueue m1 = queue" by simp
  then show "(m1\<lparr>transitioning := False\<rparr>, m) \<in> measure (\<lambda>m. length (transitionQueue m))"
    using q by simp
qed

declare processTransition.simps [simp del]

definition enterState ::
  "string \<Rightarrow> jsval list \<Rightarrow> FiniteStateMachine \<Rightarrow> jsval outcome \<times> FiniteStateMachine" where
  "enterState newStateName rest m =
     processTransition (m\<lparr>transitionQueue := transitionQueue m @ [Request newStateName forward rest]\<rparr>)"

definition exitState :: "jsval list \<Rightarrow> FiniteStateMachine \<Rightarrow> jsval outcome \<times> FiniteStateMachine" where
  "exitState rest m =
     (if previousStates m = [] then (Rejected (JError ''No previous state to transition to''), m)
      else
        (let previousState = last (previousStates m);
             m1 = m\<lparr>previousStates := butlast (previousStates m)\<rparr>;
             newStateName = name previousState;
             dataArgs = (if rest \<noteq> [] then rest else args previousState)
         in processTransition
              (m1\<lparr>transitionQueue := transitionQueue m1 @ [Request newStateName backward dataArgs]\<rparr>)))"

section \<open>Event dispatch\<close>

text \<open>
  \<open>await p k\<close> continues with the resolved value of \<open>p\<close>, or ends as \<open>p\<close> does. The lookups
  of \<open>beforeAll\<close> and \<open>afterAll\<close> test that a state object was found before they read the
  handler; the lookup on the current state reads \<open>currentStateObj[eventName]\<close> at once, which
  throws a \<open>TypeError\<close> when nothing is found under the current name.
\<close>

fun await ::
  "jsval outcome \<times> FiniteStateMachine \<Rightarrow> (jsval \<Rightarrow> FiniteStateMachine \<Rightarrow> jsval outcome \<times> FiniteStateMachine)
     \<Rightarrow> jsval outcome \<times> FiniteStateMachine" where
  "await (Resolved v, m) k = k v m"
| "await (Rejected e, m) k = (Rejected e, m)"
| "await (Unmodelled, m) k = (Unmodelled, m)"

definition callHandler ::
  "string \<Rightarrow> EventDefinition option \<Rightarrow> string \<Rightarrow> jsval list \<Rightarrow> FiniteStateMachine
     \<Rightarrow> jsval outcome \<times> FiniteStateMachine" where
  "callHandler stateName stateObj eventName rest m =
     (case (case stateObj of None \<Rightarrow> None | Some obj \<Rightarrow> obj eventName) of
        Some eventHandler \<Rightarrow> (eventHandler rest, invoke (Invoked stateName eventName rest) m)
      | None \<Rightarrow> (Resolved JUndefined, m))"

definition raiseEvent ::
  "string \<Rightarrow> jsval list \<Rightarrow> FiniteStateMachine \<Rightarrow> jsval outcome \<times> FiniteStateMachine" where
  "raiseEvent eventName rest m =
     await (callHandler ''beforeAll'' (getState m ''beforeAll'') eventName rest m) (\<lambda>_ m1.
       case getState m1 (currentStateName m1) of
         None \<Rightarrow> (Rejected JTypeError, m1)
       | Some currentStateObj \<Rightarrow>
           await (callHandler (currentStateName m1) (Some currentStateObj) eventName rest m1) (\<lambda>result m2.
             await (callHandler ''afterAll'' (getState m2 ''afterAll'') eventName rest m2) (\<lambda>_ m3.
               (Resolved result, m3))))"

section \<open>The public operations, as one step function\<close>

datatype operation =
    DefineState string EventDefinition
  | DefineTransition string string TransitionCheckFunction
  | InitialState string "jsval list"
  | EnterState string "jsval list"
  | ExitState "jsval list"
  | RaiseEvent string "jsval list"
  | Debug bool

text \<open>
  The machine after a call has run to completion, each callback settling before the next
  call; \<open>None\<close> when the call leaves what is modelled. A call whose promise rejects is a
  call like any other: the machine is as the call left it. \<open>performAll\<close> makes the calls of
  a list one after the other, and \<open>built\<close> is the machine they build from a fresh one
  (the fresh machine itself should one of them leave what is modelled).
\<close>

fun afterCall :: "jsval outcome \<times> FiniteStateMachine \<Rightarrow> FiniteStateMachine option" where
  "afterCall (Resolved v, m) = Some m"
| "afterCall (Rejected e, m) = Some m"
| "afterCall (Unmodelled, m) = None"

fun perform :: "operation \<Rightarrow> FiniteStateMachine \<Rightarrow> FiniteStateMachine option" where
  "perform (DefineState stateName definition) m = Some (defineState stateName definition m)"
| "perform (DefineTransition fromState toState transitionCheck) m =
     (case defineTransition fromState toState transitionCheck m of
        Handle m1 \<Rightarrow> Some m1
      | Falsy \<Rightarrow> Some m
      | OutsideModel \<Rightarrow> None)"
| "perform (InitialState stateName rest) m = afterCall (initialState stateName rest m)"
| "perform (EnterState newStateName rest) m = afterCall (enterState newStateName rest m)"
| "perform (ExitState rest) m = afterCall (exitState rest m)"
| "perform (RaiseEvent eventName rest) m = afterCall (raiseEvent eventName rest m)"
| "perform (Debug val) m = Some (m\<lparr>debug := val\<rparr>)"

fun performAll :: "operation list \<Rightarrow> FiniteStateMachine \<Rightarrow> FiniteStateMachine option" where
  "performAll [] m = Some m"
| "performAll (operation # operations) m =
     (case perform operation m of None \<Rightarrow> None | Some m1 \<Rightarrow> performAll operations m1)"

definition built :: "operation list \<Rightarrow> FiniteStateMachine" where
  "built operations = (case performAll operations newFSM of Some m \<Rightarrow> m | None \<Rightarrow> newFSM)"

section \<open>Calls made while a callback is pending\<close>

text \<open>
  The definitions above let every awaited callback settle before anything else happens,
  which is what a host gets that awaits each call before it makes the next. An async
  function runs synchronously up to its first \<open>yield\<close> on a pending promise, so a host that
  calls \<open>enterState\<close> twice in a row runs the second call while the first is suspended. The
  definitions below cut the same code at the three places where it waits for a host
  callback (the transition check, \<open>exit\<close>, \<open>enter\<close>): \<open>startTransition\<close> runs a request up to
  the first of them, \<open>resume\<close> runs it on from one of them once the callback has settled.
  A suspended request keeps what its closure captured: the request itself and, while it
  waits for \<open>exit\<close>, the definition of the target state read before the wait.

  One step of the runtime is one synchronous run: a call of \<open>enterState\<close> or \<open>exitState\<close>, or
  the continuation of the call numbered \<open>k\<close> when the callback it waits for settles. The
  hops between the runtime's own async functions are not steps of their own.
\<close>

datatype suspended =
    AwaitCheck TransitionPromise "jsval outcome"
  | AwaitExit TransitionPromise EventDefinition "jsval outcome"
  | AwaitEnter TransitionPromise "jsval outcome"

datatype progress = Suspended suspended | Finished "jsval outcome"

definition startGoToNextState ::
  "string \<Rightarrow> direction \<Rightarrow> jsval list \<Rightarrow> EventDefinition \<Rightarrow> FiniteStateMachine
     \<Rightarrow> progress \<times> FiniteStateMachine" where
  "startGoToNextState newStateName dir rest newStateObj m =
     (let m1 = (if dir = forward
                then m\<lparr>previousStates := previousStates m @ [\<lparr>name = currentStateName m, args = rest\<rparr>]\<rparr>
                else m);
          m2 = m1\<lparr>currentStateName := newStateName\<rparr>;
          m3 = (if newStateName = initialStateName m2 then m2\<lparr>previousStates := []\<rparr> else m2)
      in case newStateObj ''enter'' of
           Some enter \<Rightarrow>
             (Suspended (AwaitEnter (Request newStateName dir rest) (enter rest)),
              invoke (Invoked newStateName ''enter'' rest) m3)
         | None \<Rightarrow> (Finished (Resolved JUndefined), m3))"

definition startTransitionStates ::
  "string \<Rightarrow> direction \<Rightarrow> jsval list \<Rightarrow> FiniteStateMachine \<Rightarrow> progress \<times> FiniteStateMachine" where
  "startTransitionStates newStateName dir rest m =
     (case getState m (currentStateName m) of
        None \<Rightarrow> (Finished (Resolved (undefinedStateError (currentStateName m) newStateName)), m)
      | Some currentStateObj \<Rightarrow>
     (case getState m newStateName of
        None \<Rightarrow> (Finished (Resolved (undefinedStateError (currentStateName m) newStateName)), m)
      | Some newStateObj \<Rightarrow>
     (case currentStateObj ''exit'' of
        Some exit \<Rightarrow>
          (Suspended (AwaitExit (Request newStateName dir rest) newStateObj (exit rest)),
           invoke (Invoked (currentStateName m) ''exit'' rest) m)
      | None \<Rightarrow> startGoToNextState newStateName dir rest newStateObj m)))"

fun startTransition :: "TransitionPromise \<Rightarrow> FiniteStateMachine \<Rightarrow> progress \<times> FiniteStateMachine" where
  "startTransition (Request newStateName dir rest) m =
     (if newStateName = currentStateName m then (Finished (Resolved JUndefined), m)
      else
        (case transitionCheckFor m (currentStateName m) newStateName of
           None \<Rightarrow> startTransitionStates newStateName dir rest m
         | Some check \<Rightarrow>
             (Suspended (AwaitCheck (Request newStateName dir rest) (check rest)),
              invoke (Checked (currentStateName m) newStateName rest) m)))"

fun resume :: "suspended \<Rightarrow> FiniteStateMachine \<Rightarrow> progress \<times> FiniteStateMachine" where
  "resume (AwaitCheck (Request newStateName dir rest) settled) m =
     (case settled of
        Rejected e \<Rightarrow> (Finished (Rejected e), m)
      | Unmodelled \<Rightarrow> (Finished Unmodelled, m)
      | Resolved result \<Rightarrow>
          if instanceofError result then (Finished (Resolved result), m)
          else startTransitionStates newStateName dir rest m)"
| "resume (AwaitExit (Request newStateName dir rest) newStateObj settled) m =
     (case settled of
        Rejected e \<Rightarrow> (Finished (Rejected e), m)
      | Unmodelled \<Rightarrow> (Finished Unmodelled, m)
      | Resolved exitResult \<Rightarrow>
          if instanceofError exitResult then (Finished (Resolved exitResult), m)
          else startGoToNextState newStateName dir rest newStateObj m)"
| "resume (AwaitEnter request settled) m = (Finished settled, m)"

text \<open>Running a request on without ever waiting: at most three continuations.\<close>

fun advance :: "progress \<times> FiniteStateMachine \<Rightarrow> progress \<times> FiniteStateMachine" where
  "advance (Suspended s, m) = resume s m"
| "advance (Finished settled, m) = (Finished settled, m)"

text \<open>
  \<open>_processTransition\<close> up to the first wait. It does not read \<open>_transitioning\<close>: whoever
  calls it takes the head of the queue.
\<close>

function drain :: "FiniteStateMachine \<Rightarrow> progress \<times> FiniteStateMachine" where
  "drain m =
     (case transitionQueue m of
        [] \<Rightarrow> (Finished (Resolved JUndefined), m\<lparr>transitioning := False\<rparr>)
      | func # queue \<Rightarrow>
          (case startTransition func (m\<lparr>transitioning := True, transitionQueue := queue\<rparr>) of
             (Suspended s, m1) \<Rightarrow> (Suspended s, m1)
           | (Finished (Rejected e), m1) \<Rightarrow> (Finished (Rejected e), m1)
           | (Finished Unmodelled, m1) \<Rightarrow> (Finished Unmodelled, m1)
           | (Finished (Resolved r), m1) \<Rightarrow> drain (m1\<lparr>transitioning := False\<rparr>)))"
  by pat_completeness auto
termination
proof (relation "measure (\<lambda>m. length (transitionQueue m))")
  show "wf (measure (\<lambda>m. length (transitionQueue m)))" by simp
next
  fix m :: FiniteStateMachine and func queue x m1 p r
  assume q: "transitionQueue m = func # queue"
    and x: "(x, m1) = startTransition func (m\<lparr>transitioning := True, transitionQueue := queue\<rparr>)"
  have g: "\<And>n d r obj m. transitionQueue (snd (startGoToNextState n d r obj m)) = transitionQueue m"
    by (simp add: startGoToNextState_def Let_def invoke_def split: option.splits)
  have t: "\<And>n d r m. transitionQueue (snd (startTransitionStates n d r m)) = transitionQueue m"
    by (simp add: startTransitionStates_def invoke_def g split: option.splits)
  have "\<And>m. transitionQueue (snd (startTransition func m)) = transitionQueue m"
    by (cases func) (simp add: invoke_def t split: option.splits)
  from this [of "m\<lparr>transitioning := True, transitionQueue := queue\<rparr>"] x [symmetric]
  have "transitionQueue m1 = queue" by simp
  then show "(m1\<lparr>transitioning := False\<rparr>, m) \<in> measure (\<lambda>m. length (transitionQueue m))"
    using q by simp
qed

declare drain.simps [simp del]

text \<open>The rest of \<open>_processTransition\<close> once the request it awaited has finished.\<close>

definition afterTransition :: "progress \<times> FiniteStateMachine \<Rightarrow> progress \<times> FiniteStateMachine" where
  "afterTransition p =
     (case p of
        (Suspended s, m) \<Rightarrow> (Suspended s, m)
      | (Finished (Rejected e), m) \<Rightarrow> (Finished (Rejected e), m)
      | (Finished Unmodelled, m) \<Rightarrow> (Finished Unmodelled, m)
      | (Finished (Resolved r), m) \<Rightarrow> drain (m\<lparr>transitioning := False\<rparr>))"

text \<open>
  \<open>afterTransition\<close> when the queue is empty, as it is between steps; and what the settling
  of the awaited callback does to a call that is suspended or has finished.
\<close>


fun finish :: "progress \<times> FiniteStateMachine \<Rightarrow> progress \<times> FiniteStateMachine" where
  "finish (Suspended s, m) = (Suspended s, m)"
| "finish (Finished (Rejected e), m) = (Finished (Rejected e), m)"
| "finish (Finished Unmodelled, m) = (Finished Unmodelled, m)"
| "finish (Finished (Resolved r), m) = (Finished (Resolved JUndefined), m\<lparr>transitioning := False\<rparr>)"

fun onSettle :: "progress \<times> FiniteStateMachine \<Rightarrow> progress \<times> FiniteStateMachine" where
  "onSettle (Suspended s, m) = afterTransition (resume s m)"
| "onSettle (Finished settled, m) = (Finished settled, m)"

text \<open>
  The runtime with its calls in flight: \<open>inFlight\<close> holds, under the number of the call,
  where that call is suspended; \<open>results\<close> holds how the promises of finished calls settled.
\<close>

record Runtime =
  machine :: FiniteStateMachine
  inFlight :: "(nat \<times> suspended) list"
  results :: "(nat \<times> jsval outcome) list"
  calls :: nat

datatype event =
    CallEnterState string "jsval list"
  | CallExitState "jsval list"
  | Settle nat

definition deliver :: "nat \<Rightarrow> progress \<times> FiniteStateMachine \<Rightarrow> Runtime \<Rightarrow> Runtime" where
  "deliver k p rt =
     (case p of
        (Suspended s, m) \<Rightarrow>
          rt\<lparr>machine := m, inFlight := filter (\<lambda>t. fst t \<noteq> k) (inFlight rt) @ [(k, s)]\<rparr>
      | (Finished settled, m) \<Rightarrow>
          rt\<lparr>machine := m, inFlight := filter (\<lambda>t. fst t \<noteq> k) (inFlight rt),
             results := results rt @ [(k, settled)]\<rparr>)"

fun step :: "event \<Rightarrow> Runtime \<Rightarrow> Runtime" where
  "step (CallEnterState newStateName rest) rt =
     (let m = machine rt;
          m1 = m\<lparr>transitionQueue := transitionQueue m @ [Request newStateName forward rest]\<rparr>
      in deliver (calls rt) (drain m1) (rt\<lparr>calls := Suc (calls rt)\<rparr>))"
| "step (CallExitState rest) rt =
     (let m = machine rt in
      if previousStates m = [] then
        rt\<lparr>results := results rt @ [(calls rt, Rejected (JError ''No previous state to transition to''))],
           calls := Suc (calls rt)\<rparr>
      else
        (let previousState = last (previousStates m);
             m1 = m\<lparr>previousStates := butlast (previousStates m)\<rparr>;
             newStateName = name previousState;
             dataArgs = (if rest \<noteq> [] then rest else args previousState);
             m2 = m1\<lparr>transitionQueue := transitionQueue m1 @ [Request newStateName backward dataArgs]\<rparr>
         in deliver (calls rt) (drain m2) (rt\<lparr>calls := Suc (calls rt)\<rparr>)))"
| "step (Settle k) rt =
     (case map_of (inFlight rt) k of
        None \<Rightarrow> rt
      | Some s \<Rightarrow> deliver k (afterTransition (resume s (machine rt))) rt)"

definition start :: "FiniteStateMachine \<Rightarrow> Runtime" where
  "start m = \<lparr>machine = m, inFlight = [], results = [], calls = 0\<rparr>"

section \<open>Vocabulary of the properties\<close>

text \<open>
  A callback that is absent, or that resolves to a value that is not an \<open>Error\<close>, lets a
  transition go on. A request proceeds when its target is not the current state, the
  transition check and the \<open>exit\<close> callback of the current state let it, and a state object
  is found for both names: then the machine changes state. \<open>moved\<close> is the history after
  the change.
\<close>

definition allows :: "handler option \<Rightarrow> jsval list \<Rightarrow> bool" where
  "allows h rest =
     (case h of None \<Rightarrow> True
      | Some f \<Rightarrow>
          (case f rest of
             Resolved v \<Rightarrow> \<not> instanceofError v
           | Rejected e \<Rightarrow> False
           | Unmodelled \<Rightarrow> False))"

definition leaves :: "FiniteStateMachine \<Rightarrow> string \<Rightarrow> jsval list \<Rightarrow> bool" where
  "leaves m newStateName rest =
     ((case getState m (currentStateName m) of
         None \<Rightarrow> False
       | Some currentStateObj \<Rightarrow> allows (currentStateObj ''exit'') rest) \<and>
      getState m newStateName \<noteq> None)"

definition proceeds :: "FiniteStateMachine \<Rightarrow> string \<Rightarrow> jsval list \<Rightarrow> bool" where
  "proceeds m newStateName rest =
     (newStateName \<noteq> currentStateName m \<and>
      allows (transitionCheckFor m (currentStateName m) newStateName) rest \<and>
      leaves m newStateName rest)"

definition moved :: "string \<Rightarrow> direction \<Rightarrow> jsval list \<Rightarrow> FiniteStateMachine \<Rightarrow> PreviousState list" where
  "moved newStateName dir rest m =
     (if newStateName = initialStateName m then []
      else if dir = forward then previousStates m @ [\<lparr>name = currentStateName m, args = rest\<rparr>]
      else previousStates m)"

text \<open>
  The callbacks a request invokes, in the order of their invocation: the transition check
  if there is one; when it lets the request pass and a state object is found for both
  names, the \<open>exit\<close> of the current state if there is one; and when that lets the request
  pass, the \<open>enter\<close> of the target if there is one. All are called with the arguments of
  the request.
\<close>

definition asked :: "FiniteStateMachine \<Rightarrow> string \<Rightarrow> jsval list \<Rightarrow> invocation list" where
  "asked m newStateName rest =
     (if newStateName = currentStateName m then []
      else
        (case transitionCheckFor m (currentStateName m) newStateName of
           None \<Rightarrow> []
         | Some check \<Rightarrow> [Checked (currentStateName m) newStateName rest]) @
        (if allows (transitionCheckFor m (currentStateName m) newStateName) rest then
           (case getState m (currentStateName m) of
              None \<Rightarrow> []
            | Some currentStateObj \<Rightarrow>
                (case getState m newStateName of
                   None \<Rightarrow> []
                 | Some newStateObj \<Rightarrow>
                     (case currentStateObj ''exit'' of
                        None \<Rightarrow> []
                      | Some exit \<Rightarrow> [Invoked (currentStateName m) ''exit'' rest]) @
                     (if allows (currentStateObj ''exit'') rest then
                        (case newStateObj ''enter'' of
                           None \<Rightarrow> []
                         | Some enter \<Rightarrow> [Invoked newStateName ''enter'' rest])
                      else [])))
         else []))"

text \<open>
  What \<open>_processTransition\<close> makes of the one request it ran when nothing else is queued:
  the value the request resolved with is dropped.
\<close>

fun alone :: "jsval outcome \<times> FiniteStateMachine \<Rightarrow> jsval outcome \<times> FiniteStateMachine" where
  "alone (Resolved r, m) = (Resolved JUndefined, m\<lparr>transitioning := False\<rparr>)"
| "alone (Rejected e, m) = (Rejected e, m)"
| "alone (Unmodelled, m) = (Unmodelled, m)"

text \<open>A sequence of \<open>defineState\<close> calls, as the constructor makes for its initial data.\<close>

definition defineStates ::
  "(string \<times> EventDefinition) list \<Rightarrow> FiniteStateMachine \<Rightarrow> FiniteStateMachine" where
  "defineStates definitions m = fold (\<lambda>(stateName, definition). defineState stateName definition) definitions m"

section \<open>Machines used as examples\<close>

text \<open>The four plain states of the test suite, with \<open>state1\<close> made the initial state.\<close>

definition fourStates :: FiniteStateMachine where
  "fourStates = built
     [DefineState ''state1'' Map.empty, DefineState ''state2'' Map.empty,
      DefineState ''state3'' Map.empty, DefineState ''state4'' Map.empty,
      InitialState ''state1'' []]"

text \<open>
  The example of the documentation of \<open>defineTransition\<close>: \<open>idle\<close> and \<open>moving\<close>, each with an
  \<open>enter\<close> and an \<open>exit\<close> that return nothing, and a check from \<open>idle\<close> to \<open>moving\<close> that lets the
  transition pass for the argument \<open>'ok'\<close> and returns \<open>new Error("Some error")\<close> otherwise.
\<close>

definition returnsNothing :: handler where
  "returnsNothing rest = Resolved JUndefined"

definition okCheck :: TransitionCheckFunction where
  "okCheck rest =
     (if rest = [JStr ''ok''] then Resolved (JStr ''whatever value you like'')
      else Resolved (JError ''Some error''))"

definition idleMovingCalls :: "operation list" where
  "idleMovingCalls =
     [DefineState ''idle'' [''enter'' \<mapsto> returnsNothing, ''exit'' \<mapsto> returnsNothing],
      DefineState ''moving'' [''enter'' \<mapsto> returnsNothing, ''exit'' \<mapsto> returnsNothing],
      DefineTransition ''idle'' ''moving'' okCheck,
      InitialState ''idle'' []]"

definition idleMoving :: FiniteStateMachine where
  "idleMoving = built idleMovingCalls"

text \<open>
  Three plain states entered one after the other, and a check that refuses the way back
  from the third to the second.
\<close>

definition refuses :: TransitionCheckFunction where
  "refuses rest = Resolved (JError ''stay'')"

definition noWayBack :: FiniteStateMachine where
  "noWayBack = built
     [DefineState ''state1'' Map.empty, DefineState ''state2'' Map.empty,
      DefineState ''state3'' Map.empty,
      DefineTransition ''state3'' ''state2'' refuses,
      InitialState ''state1'' [], EnterState ''state2'' [], EnterState ''state3'' []]"

text \<open>A target state whose \<open>enter\<close> resolves to an \<open>Error\<close>.\<close>

definition failsLate :: handler where
  "failsLate rest = Resolved (JError ''late'')"

definition lateError :: FiniteStateMachine where
  "lateError = built
     [DefineState ''state1'' Map.empty, DefineState ''state2'' Map.empty,
      DefineState ''state3'' [''enter'' \<mapsto> failsLate],
      InitialState ''state1'' [], EnterState ''state2'' []]"

text \<open>A machine whose \<open>beforeAll\<close> handler for the event \<open>ping\<close> rejects; no state was entered.\<close>

definition rejects :: handler where
  "rejects rest = Rejected (JStr ''boom'')"

definition hooked :: FiniteStateMachine where
  "hooked = built
     [DefineState ''state1'' Map.empty, DefineState ''beforeAll'' [''ping'' \<mapsto> rejects]]"

text \<open>
  The machine of the first test of the suite (\<open>state2\<close> and \<open>state3\<close> have an \<open>enter\<close> and an
  \<open>exit\<close> that resolve after a delay), with a check added that refuses the transition from
  \<open>state3\<close> to \<open>state1\<close>. The machine has entered \<open>state2\<close>.
\<close>

definition delayed :: FiniteStateMachine where
  "delayed = built
     [DefineState ''state1'' Map.empty,
      DefineState ''state2'' [''enter'' \<mapsto> returnsNothing, ''exit'' \<mapsto> returnsNothing],
      DefineState ''state3'' [''enter'' \<mapsto> returnsNothing, ''exit'' \<mapsto> returnsNothing],
      DefineTransition ''state3'' ''state1'' refuses,
      InitialState ''state1'' [], EnterState ''state2'' []]"

text \<open>The machine of the documentation's example once \<open>moving\<close> has been entered with \<open>'ok'\<close>.\<close>

definition movingNow :: FiniteStateMachine where
  "movingNow = built (idleMovingCalls @ [EnterState ''moving'' [JStr ''ok'']])"

text \<open>
  The same machine with the check asked on the way back as well, once \<open>moving\<close> has been
  entered with \<open>'ok'\<close>.
\<close>

definition bothWays :: FiniteStateMachine where
  "bothWays = built
     (idleMovingCalls @
      [DefineTransition ''moving'' ''idle'' okCheck, EnterState ''moving'' [JStr ''ok'']])"

text \<open>
  What a drain keeps: the name of the initial state, and either the current state together
  with the history, or an empty history whenever the current state is the initial state.
\<close>

definition settledHistory :: "FiniteStateMachine \<Rightarrow> FiniteStateMachine \<Rightarrow> bool" where
  "settledHistory m m' =
     (initialStateName m' = initialStateName m \<and>
      ((currentStateName m' = currentStateName m \<and> previousStates m' = previousStates m) \<or>
       (if currentStateName m' = initialStateName m then previousStates m' = [] else True)))"

section \<open>The example machines, evaluated\<close>

lemmas lookup_defs =
  getState_def transitionCheckFor_def property_def opaque_def objectPrototypeNames_def beyond_def

lemmas machine_defs =
  newFSM_def defineState_def protoSetterReached_def defineTransition_def lookup_defs initialState_def
  goToNextState_def transitionStates_def invoke_def
  processTransition.simps enterState_def exitState_def raiseEvent_def callHandler_def
  undefinedStateError_def dq_def built_def Let_def

lemmas example_defs =
  fourStates_def idleMoving_def idleMovingCalls_def noWayBack_def lateError_def hooked_def
  delayed_def returnsNothing_def okCheck_def refuses_def failsLate_def rejects_def

lemma fourStates_eval:
  "fourStates = newFSM\<lparr>states := [''state1'' \<mapsto> Map.empty, ''state2'' \<mapsto> Map.empty,
      ''state3'' \<mapsto> Map.empty, ''state4'' \<mapsto> Map.empty],
      initialStateName := ''state1'', currentStateName := ''state1''\<rparr>"
  by (simp add: fourStates_def machine_defs)

lemma idleMoving_eval:
  "idleMoving = newFSM\<lparr>
     states := [''idle'' \<mapsto> [''enter'' \<mapsto> returnsNothing, ''exit'' \<mapsto> returnsNothing],
                ''moving'' \<mapsto> [''enter'' \<mapsto> returnsNothing, ''exit'' \<mapsto> returnsNothing]],
     transitions := [''idle'' \<mapsto> [''moving'' \<mapsto> okCheck]],
     initialStateName := ''idle'', currentStateName := ''idle'',
     invocations := [Invoked ''idle'' ''enter'' []]\<rparr>"
  by (simp add: idleMoving_def idleMovingCalls_def machine_defs returnsNothing_def)

lemma movingNow_eval:
  "movingNow = newFSM\<lparr>
     states := [''idle'' \<mapsto> [''enter'' \<mapsto> returnsNothing, ''exit'' \<mapsto> returnsNothing],
                ''moving'' \<mapsto> [''enter'' \<mapsto> returnsNothing, ''exit'' \<mapsto> returnsNothing]],
     transitions := [''idle'' \<mapsto> [''moving'' \<mapsto> okCheck]],
     initialStateName := ''idle'', currentStateName := ''moving'',
     previousStates := [\<lparr>name = ''idle'', args = [JStr ''ok'']\<rparr>],
     invocations := [Invoked ''idle'' ''enter'' [], Checked ''idle'' ''moving'' [JStr ''ok''],
       Invoked ''idle'' ''exit'' [JStr ''ok''], Invoked ''moving'' ''enter'' [JStr ''ok'']]\<rparr>"
  by (simp add: movingNow_def idleMovingCalls_def machine_defs returnsNothing_def okCheck_def)

lemma delayed_eval:
  "delayed = newFSM\<lparr>
     states := [''state1'' \<mapsto> Map.empty,
                ''state2'' \<mapsto> [''enter'' \<mapsto> returnsNothing, ''exit'' \<mapsto> returnsNothing],
                ''state3'' \<mapsto> [''enter'' \<mapsto> returnsNothing, ''exit'' \<mapsto> returnsNothing]],
     transitions := [''state3'' \<mapsto> [''state1'' \<mapsto> refuses]],
     initialStateName := ''state1'', currentStateName := ''state2'',
     previousStates := [\<lparr>name = ''state1'', args = []\<rparr>],
     invocations := [Invoked ''state2'' ''enter'' []]\<rparr>"
  by (simp add: delayed_def machine_defs returnsNothing_def)

lemma noWayBack_eval:
  "noWayBack = newFSM\<lparr>
     states := [''state1'' \<mapsto> Map.empty, ''state2'' \<mapsto> Map.empty, ''state3'' \<mapsto> Map.empty],
     transitions := [''state3'' \<mapsto> [''state2'' \<mapsto> refuses]],
     initialStateName := ''state1'', currentStateName := ''state3'',
     previousStates := [\<lparr>name = ''state1'', args = []\<rparr>, \<lparr>name = ''state2'', args = []\<rparr>]\<rparr>"
  by (simp add: noWayBack_def machine_defs)

lemma lateError_eval:
  "lateError = newFSM\<lparr>
     states := [''state1'' \<mapsto> Map.empty, ''state2'' \<mapsto> Map.empty, ''state3'' \<mapsto> [''enter'' \<mapsto> failsLate]],
     initialStateName := ''state1'', currentStateName := ''state2'',
     previousStates := [\<lparr>name = ''state1'', args = []\<rparr>]\<rparr>"
  by (simp add: lateError_def machine_defs)


lemma bothWays_eval:
  "bothWays = newFSM\<lparr>
     states := [''idle'' \<mapsto> [''enter'' \<mapsto> returnsNothing, ''exit'' \<mapsto> returnsNothing],
                ''moving'' \<mapsto> [''enter'' \<mapsto> returnsNothing, ''exit'' \<mapsto> returnsNothing]],
     transitions := [''idle'' \<mapsto> [''moving'' \<mapsto> okCheck], ''moving'' \<mapsto> [''idle'' \<mapsto> okCheck]],
     initialStateName := ''idle'', currentStateName := ''moving'',
     previousStates := [\<lparr>name = ''idle'', args = [JStr ''ok'']\<rparr>],
     invocations := [Invoked ''idle'' ''enter'' [], Checked ''idle'' ''moving'' [JStr ''ok''],
       Invoked ''idle'' ''exit'' [JStr ''ok''], Invoked ''moving'' ''enter'' [JStr ''ok'']]\<rparr>"
  by (simp add: bothWays_def idleMovingCalls_def machine_defs returnsNothing_def okCheck_def)

section \<open>The scenarios of the test suite\<close>

text \<open>
  The three tests that inspect the history: enter \<open>state2\<close> and return; enter up to \<open>state4\<close>,
  return once and enter the initial state; return a second time with nothing left to
  return to.
\<close>

lemma test_previous_state:
  "map_option previousStates (performAll [EnterState ''state2'' []] fourStates) =
     Some [\<lparr>name = ''state1'', args = []\<rparr>]"
  "map_option previousStates (performAll [EnterState ''state2'' [], ExitState []] fourStates) = Some []"
  "map_option currentStateName (performAll [EnterState ''state2'' [], ExitState []] fourStates) =
     Some ''state1''"
  "map_option previousStates (performAll [EnterState ''state2'' [], ExitState [],
      EnterState ''state2'' [], EnterState ''state3'' []] fourStates) =
     Some [\<lparr>name = ''state1'', args = []\<rparr>, \<lparr>name = ''state2'', args = []\<rparr>]"
  by (simp_all add: fourStates_eval machine_defs)

lemma test_reset_history:
  "map_option previousStates (performAll [EnterState ''state2'' [], EnterState ''state3'' [],
      EnterState ''state4'' []] fourStates) =
     Some [\<lparr>name = ''state1'', args = []\<rparr>, \<lparr>name = ''state2'', args = []\<rparr>,
           \<lparr>name = ''state3'', args = []\<rparr>]"
  "map_option previousStates (performAll [EnterState ''state2'' [], EnterState ''state3'' [],
      EnterState ''state4'' [], ExitState []] fourStates) =
     Some [\<lparr>name = ''state1'', args = []\<rparr>, \<lparr>name = ''state2'', args = []\<rparr>]"
  "map_option currentStateName (performAll [EnterState ''state2'' [], EnterState ''state3'' [],
      EnterState ''state4'' [], ExitState []] fourStates) = Some ''state3''"
  "map_option previousStates (performAll [EnterState ''state2'' [], EnterState ''state3'' [],
      EnterState ''state4'' [], ExitState [], EnterState ''state1'' []] fourStates) = Some []"
  by (simp_all add: fourStates_eval machine_defs)

lemma test_no_state_to_exit_to:
  "map_option (\<lambda>m. fst (exitState [] m))
     (performAll [EnterState ''state2'' [], ExitState []] fourStates) =
     Some (Rejected (JError ''No previous state to transition to''))"
  by (simp add: fourStates_eval machine_defs)

section \<open>What one request does\<close>

lemma invoke_fields [simp]:
  "states (invoke i m) = states m"
  "statesProto (invoke i m) = statesProto m"
  "transitions (invoke i m) = transitions m"
  "initialStateName (invoke i m) = initialStateName m"
  "currentStateName (invoke i m) = currentStateName m"
  "previousStates (invoke i m) = previousStates m"
  "transitionQueue (invoke i m) = transitionQueue m"
  "transitioning (invoke i m) = transitioning m"
  "invocations (invoke i m) = invocations m @ [i]"
  by (simp_all add: invoke_def)

lemma getState_invoke [simp]: "getState (invoke i m) = getState m"
  by (rule ext) (simp add: getState_def split: option.splits)

lemma transitionCheckFor_invoke [simp]: "transitionCheckFor (invoke i m) = transitionCheckFor m"
  by (rule ext, rule ext) (simp add: transitionCheckFor_def split: option.splits)

lemma moved_invoke [simp]: "moved n d r (invoke i m) = moved n d r m"
  by (simp add: moved_def)

lemma leaves_invoke [simp]: "leaves (invoke i m) = leaves m"
  by (rule ext, rule ext) (simp add: leaves_def)

lemma goToNextState_state:
  "currentStateName (snd (goToNextState n d r obj m)) = n"
  "previousStates (snd (goToNextState n d r obj m)) = moved n d r m"
  "initialStateName (snd (goToNextState n d r obj m)) = initialStateName m"
  "transitionQueue (snd (goToNextState n d r obj m)) = transitionQueue m"
  by (simp_all add: goToNextState_def moved_def Let_def split: option.splits)

lemma goToNextState_result:
  "fst (goToNextState n d r obj m) =
     (case obj ''enter'' of Some enter \<Rightarrow> enter r | None \<Rightarrow> Resolved JUndefined)"
  by (simp add: goToNextState_def Let_def split: option.splits)

lemma goToNextState_invocations:
  "invocations (snd (goToNextState n d r obj m)) =
     invocations m @ (case obj ''enter'' of Some enter \<Rightarrow> [Invoked n ''enter'' r] | None \<Rightarrow> [])"
  by (simp add: goToNextState_def Let_def split: option.splits)

lemma transitionStates_leaves:
  assumes "leaves m n rest"
  shows "currentStateName (snd (transitionStates n d rest m)) = n"
    and "previousStates (snd (transitionStates n d rest m)) = moved n d rest m"
  using assms
  by (auto simp: leaves_def allows_def transitionStates_def goToNextState_state Let_def
      split: option.splits outcome.splits)

lemma transitionStates_stays:
  assumes "\<not> leaves m n rest"
  shows "currentStateName (snd (transitionStates n d rest m)) = currentStateName m"
    and "previousStates (snd (transitionStates n d rest m)) = previousStates m"
  using assms
  by (auto simp: leaves_def allows_def transitionStates_def goToNextState_state Let_def
      split: option.splits outcome.splits)

lemma transitionStates_result:
  assumes "leaves m n rest" and "getState m n = Some obj"
  shows "fst (transitionStates n d rest m) =
     (case obj ''enter'' of Some enter \<Rightarrow> enter rest | None \<Rightarrow> Resolved JUndefined)"
  using assms
  by (auto simp: leaves_def allows_def transitionStates_def goToNextState_result Let_def
      split: option.splits outcome.splits)

lemma transitionStates_frame:
  "initialStateName (snd (transitionStates n d rest m)) = initialStateName m"
  "transitionQueue (snd (transitionStates n d rest m)) = transitionQueue m"
  by (simp_all add: transitionStates_def goToNextState_state Let_def split: option.splits outcome.splits)

lemma transitionStates_invocations:
  "invocations (snd (transitionStates n d rest m)) = invocations m @
     (case getState m (currentStateName m) of
        None \<Rightarrow> []
      | Some currentStateObj \<Rightarrow>
          (case getState m n of
             None \<Rightarrow> []
           | Some newStateObj \<Rightarrow>
               (case currentStateObj ''exit'' of
                  None \<Rightarrow> []
                | Some exit \<Rightarrow> [Invoked (currentStateName m) ''exit'' rest]) @
               (if allows (currentStateObj ''exit'') rest then
                  (case newStateObj ''enter'' of
                     None \<Rightarrow> []
                   | Some enter \<Rightarrow> [Invoked n ''enter'' rest])
                else [])))"
  by (auto simp: transitionStates_def goToNextState_invocations allows_def Let_def
      split: option.splits outcome.splits)

lemma runTransition_proceeds:
  assumes "proceeds m n rest"
  shows "currentStateName (snd (runTransition (Request n d rest) m)) = n"
    and "previousStates (snd (runTransition (Request n d rest) m)) = moved n d rest m"
  using assms
  by (auto simp: proceeds_def allows_def transitionStates_leaves Let_def
      split: option.splits outcome.splits)

lemma runTransition_stays:
  assumes "\<not> proceeds m n rest"
  shows "currentStateName (snd (runTransition (Request n d rest) m)) = currentStateName m"
    and "previousStates (snd (runTransition (Request n d rest) m)) = previousStates m"
  using assms
  by (auto simp: proceeds_def allows_def transitionStates_stays transitionStates_leaves Let_def
      split: option.splits outcome.splits)

lemma runTransition_result:
  assumes "proceeds m n rest" and "getState m n = Some obj"
  shows "fst (runTransition (Request n d rest) m) =
     (case obj ''enter'' of Some enter \<Rightarrow> enter rest | None \<Rightarrow> Resolved JUndefined)"
  using assms
  by (auto simp: proceeds_def allows_def transitionStates_result Let_def
      split: option.splits outcome.splits)

lemma runTransition_frame:
  "initialStateName (snd (runTransition q m)) = initialStateName m"
  "transitionQueue (snd (runTransition q m)) = transitionQueue m"
  by (cases q; simp add: transitionStates_frame Let_def split: option.splits outcome.splits)+

lemma runTransition_asked:
  "invocations (snd (runTransition (Request n d rest) m)) = invocations m @ asked m n rest"
  by (auto simp: asked_def transitionStates_invocations allows_def Let_def
      split: option.splits outcome.splits)

text \<open>
  Cut at its waits and run on without waiting, a request does what \<open>runTransition\<close> does.
\<close>

lemma advance_goToNextState:
  "advance (startGoToNextState n d rest obj m) =
     (Finished (fst (goToNextState n d rest obj m)), snd (goToNextState n d rest obj m))"
  by (simp add: startGoToNextState_def goToNextState_def Let_def split: option.splits)

lemma advance_transitionStates:
  "advance (advance (startTransitionStates n d rest m)) =
     (Finished (fst (transitionStates n d rest m)), snd (transitionStates n d rest m))"
  by (simp add: startTransitionStates_def transitionStates_def advance_goToNextState Let_def
      split: option.splits outcome.splits)

lemma startTransition_runTransition:
  "advance (advance (advance (startTransition q m))) =
     (Finished (fst (runTransition q m)), snd (runTransition q m))"
  by (cases q)
     (simp add: runTransition.simps advance_transitionStates Let_def split: option.splits outcome.splits)

declare runTransition.simps [simp del]

section \<open>What the queue does\<close>

lemma processTransition_Nil:
  "transitionQueue m = [] \<Longrightarrow> processTransition m = (Resolved JUndefined, m\<lparr>transitioning := False\<rparr>)"
  by (simp add: processTransition.simps)

lemma processTransition_Cons:
  assumes "transitionQueue m = func # queue"
  shows "processTransition m =
     (case runTransition func (m\<lparr>transitioning := True, transitionQueue := queue\<rparr>) of
        (Rejected e, m1) \<Rightarrow> (Rejected e, m1)
      | (Unmodelled, m1) \<Rightarrow> (Unmodelled, m1)
      | (Resolved r, m1) \<Rightarrow> processTransition (m1\<lparr>transitioning := False\<rparr>))"
  using assms by (simp add: processTransition.simps [of m])

text \<open>Whatever the requests returned, a drain that resolves resolves with \<open>undefined\<close>.\<close>

lemma processTransition_undefined:
  "fst (processTransition m) = Resolved v \<Longrightarrow> v = JUndefined"
proof (induction m rule: processTransition.induct)
  case (1 m)
  show ?case
  proof (cases "transitionQueue m")
    case Nil
    with "1.prems" show ?thesis by (simp add: processTransition_Nil)
  next
    case (Cons func queue)
    obtain x m1 where r: "runTransition func (m\<lparr>transitioning := True, transitionQueue := queue\<rparr>) = (x, m1)"
      by (cases "runTransition func (m\<lparr>transitioning := True, transitionQueue := queue\<rparr>)")
    show ?thesis
    proof (cases x)
      case (Resolved r')
      with "1.prems" Cons r have "fst (processTransition (m1\<lparr>transitioning := False\<rparr>)) = Resolved v"
        by (simp add: processTransition_Cons)
      with "1.IH" [OF Cons r [symmetric] Resolved] show ?thesis by simp
    next
      case (Rejected e)
      with "1.prems" Cons r show ?thesis by (simp add: processTransition_Cons)
    next
      case Unmodelled
      with "1.prems" Cons r show ?thesis by (simp add: processTransition_Cons)
    qed
  qed
qed

lemma enterState_resolves_undefined:
  "fst (enterState n rest m) = Resolved v \<Longrightarrow> v = JUndefined"
  unfolding enterState_def by (rule processTransition_undefined)

lemma exitState_resolves_undefined:
  "fst (exitState rest m) = Resolved v \<Longrightarrow> v = JUndefined"
  by (auto simp: exitState_def Let_def dest: processTransition_undefined split: if_splits)

lemma runTransition_settledHistory: "settledHistory m (snd (runTransition q m))"
proof (cases q)
  case (Request n d rest)
  show ?thesis
  proof (cases "proceeds m n rest")
    case True
    from runTransition_proceeds [OF True, of d] show ?thesis
      by (auto simp: settledHistory_def Request runTransition_frame moved_def)
  next
    case False
    from runTransition_stays [OF False, of d] show ?thesis
      by (simp add: settledHistory_def Request runTransition_frame)
  qed
qed

lemma settledHistory_trans:
  "settledHistory a b \<Longrightarrow> settledHistory b c \<Longrightarrow> settledHistory a c"
  by (auto simp: settledHistory_def split: if_splits)

lemma settledHistory_flag:
  "settledHistory (m\<lparr>transitioning := b, transitionQueue := q\<rparr>) m' = settledHistory m m'"
  "settledHistory m (m'\<lparr>transitioning := b\<rparr>) = settledHistory m m'"
  by (simp_all add: settledHistory_def)

lemma processTransition_settledHistory: "settledHistory m (snd (processTransition m))"
proof (induction m rule: processTransition.induct)
  case (1 m)
  show ?case
  proof (cases "transitionQueue m")
    case Nil
    then show ?thesis by (simp add: processTransition_Nil settledHistory_def)
  next
    case (Cons func queue)
    let ?m0 = "m\<lparr>transitioning := True, transitionQueue := queue\<rparr>"
    obtain x m1 where r: "runTransition func ?m0 = (x, m1)"
      by (cases "runTransition func ?m0")
    have s1: "settledHistory m m1"
      using runTransition_settledHistory [of ?m0 func] r by (simp add: settledHistory_flag)
    show ?thesis
    proof (cases x)
      case (Resolved r')
      have "settledHistory (m1\<lparr>transitioning := False\<rparr>) (snd (processTransition (m1\<lparr>transitioning := False\<rparr>)))"
        using "1.IH" [OF Cons r [symmetric] Resolved] .
      then have "settledHistory m1 (snd (processTransition (m1\<lparr>transitioning := False\<rparr>)))"
        by (simp add: settledHistory_def)
      with s1 have "settledHistory m (snd (processTransition (m1\<lparr>transitioning := False\<rparr>)))"
        by (rule settledHistory_trans)
      then show ?thesis using Cons r Resolved by (simp add: processTransition_Cons)
    next
      case (Rejected e)
      with s1 Cons r show ?thesis by (simp add: processTransition_Cons)
    next
      case Unmodelled
      with s1 Cons r show ?thesis by (simp add: processTransition_Cons)
    qed
  qed
qed

lemma processTransition_initial:
  "initialStateName (snd (processTransition m)) = initialStateName m"
  using processTransition_settledHistory [of m] by (simp add: settledHistory_def)

text \<open>With nothing else queued, a call runs exactly its own request.\<close>

lemma processTransition_single:
  assumes "transitionQueue m = []"
  shows "processTransition (m\<lparr>transitionQueue := [q]\<rparr>) =
     alone (runTransition q (m\<lparr>transitioning := True\<rparr>))"
proof -
  have eq: "m\<lparr>transitioning := True, transitionQueue := []\<rparr> = m\<lparr>transitioning := True\<rparr>"
    using assms by simp
  obtain x m1 where r: "runTransition q (m\<lparr>transitioning := True\<rparr>) = (x, m1)"
    by (cases "runTransition q (m\<lparr>transitioning := True\<rparr>)")
  have q1: "transitionQueue m1 = []"
    using runTransition_frame(2) [of q "m\<lparr>transitioning := True\<rparr>"] r assms by simp
  show ?thesis
    by (cases x)
       (simp_all add: processTransition_Cons [of "m\<lparr>transitionQueue := [q]\<rparr>" q "[]"] eq r
          processTransition_Nil q1)
qed

lemma alone_fields:
  "currentStateName (snd (alone p)) = currentStateName (snd p)"
  "previousStates (snd (alone p)) = previousStates (snd p)"
  "initialStateName (snd (alone p)) = initialStateName (snd p)"
  "invocations (snd (alone p)) = invocations (snd p)"
  "transitionQueue (snd (alone p)) = transitionQueue (snd p)"
  by (cases p rule: alone.cases; simp)+

lemma alone_result:
  "fst (alone p) =
     (case fst p of Resolved r \<Rightarrow> Resolved JUndefined | Rejected e \<Rightarrow> Rejected e
      | Unmodelled \<Rightarrow> Unmodelled)"
  by (cases p rule: alone.cases) simp_all

lemma enterState_single:
  assumes "transitionQueue m = []"
  shows "enterState n rest m = alone (runTransition (Request n forward rest) (m\<lparr>transitioning := True\<rparr>))"
  using processTransition_single [OF assms, of "Request n forward rest"] assms
  by (simp add: enterState_def)

lemma exitState_single:
  assumes "transitionQueue m = []" and "previousStates m \<noteq> []"
  shows "exitState rest m =
     alone (runTransition
             (Request (name (last (previousStates m))) backward
                (if rest \<noteq> [] then rest else args (last (previousStates m))))
             (m\<lparr>previousStates := butlast (previousStates m), transitioning := True\<rparr>))"
proof -
  let ?m1 = "m\<lparr>previousStates := butlast (previousStates m)\<rparr>"
  have q: "transitionQueue ?m1 = []" using assms by simp
  show ?thesis
    using processTransition_single [OF q] assms
    by (simp add: exitState_def Let_def)
qed

lemma getState_frame [simp]:
  "getState (m\<lparr>transitioning := b\<rparr>) = getState m"
  "getState (m\<lparr>previousStates := h\<rparr>) = getState m"
  by (rule ext, simp add: getState_def split: option.splits)+

lemma transitionCheckFor_frame [simp]:
  "transitionCheckFor (m\<lparr>transitioning := b\<rparr>) = transitionCheckFor m"
  "transitionCheckFor (m\<lparr>previousStates := h\<rparr>) = transitionCheckFor m"
  by (rule ext, rule ext, simp add: transitionCheckFor_def split: option.splits)+

lemma proceeds_frame [simp]:
  "proceeds (m\<lparr>transitioning := b\<rparr>) = proceeds m"
  "proceeds (m\<lparr>previousStates := h\<rparr>) = proceeds m"
  by (rule ext, rule ext, simp add: proceeds_def leaves_def)+

lemma asked_frame [simp]:
  "asked (m\<lparr>transitioning := b\<rparr>) = asked m"
  "asked (m\<lparr>previousStates := h\<rparr>) = asked m"
  by (rule ext, rule ext, simp add: asked_def split: option.splits)+

lemma moved_transitioning [simp]:
  "moved n d r (m\<lparr>transitioning := b\<rparr>) = moved n d r m"
  by (simp add: moved_def)

section \<open>The designation of the initial state\<close>

lemma await_initial:
  assumes "initialStateName (snd p) = i"
    and "\<And>v m1. initialStateName m1 = i \<Longrightarrow> initialStateName (snd (k v m1)) = i"
  shows "initialStateName (snd (await p k)) = i"
  using assms by (cases p; cases "fst p") auto

lemma callHandler_initial:
  "initialStateName (snd (callHandler s obj ev rest m)) = initialStateName m"
  by (simp add: callHandler_def split: option.splits)

lemma raiseEvent_initial:
  "initialStateName (snd (raiseEvent ev rest m)) = initialStateName m"
  unfolding raiseEvent_def
  by (intro await_initial callHandler_initial)
     (auto simp: callHandler_initial split: option.splits intro!: await_initial)

lemma defineState_initial:
  "initialStateName (defineState n d m) = (if initialStateName m = '''' then n else initialStateName m)"
  by (simp add: defineState_def Let_def)

lemma defineStates_initial:
  "initialStateName m \<noteq> '''' \<Longrightarrow> initialStateName (defineStates ds m) = initialStateName m"
  unfolding defineStates_def
  by (induction ds arbitrary: m) (auto simp: defineState_initial)

lemma initialState_initial:
  "initialStateName (snd (initialState n rest m)) =
     (if getState m n = None then initialStateName m else n)"
  by (simp add: initialState_def Let_def split: option.splits)

lemma defineTransition_initial:
  "defineTransition f t c m = Handle m' \<Longrightarrow> initialStateName m' = initialStateName m"
  by (auto simp: defineTransition_def split: if_splits option.splits)

lemma enterState_initial:
  "initialStateName (snd (enterState n rest m)) = initialStateName m"
  by (simp add: enterState_def processTransition_initial)

lemma exitState_initial:
  "initialStateName (snd (exitState rest m)) = initialStateName m"
  by (simp add: exitState_def Let_def processTransition_initial)

section \<open>Serialisation of the queue\<close>

lemmas runtime_defs =
  start_def deliver_def afterTransition_def drain.simps startGoToNextState_def
  startTransitionStates_def startTransition.simps

lemma startGoToNextState_queue:
  "transitionQueue (snd (startGoToNextState n d r obj m)) = transitionQueue m"
  by (simp add: startGoToNextState_def Let_def split: option.splits)

lemma startTransitionStates_queue:
  "transitionQueue (snd (startTransitionStates n d r m)) = transitionQueue m"
  by (simp add: startTransitionStates_def startGoToNextState_queue split: option.splits)

lemma startTransition_queue:
  "transitionQueue (snd (startTransition q m)) = transitionQueue m"
  by (cases q) (simp add: startTransitionStates_queue split: option.splits)

lemma resume_queue:
  "transitionQueue (snd (resume s m)) = transitionQueue m"
  by (induction s m rule: resume.induct)
     (simp_all add: startTransitionStates_queue startGoToNextState_queue split: outcome.splits)

declare startTransition.simps [simp del]

lemma drain_Nil:
  "transitionQueue m = [] \<Longrightarrow> drain m = (Finished (Resolved JUndefined), m\<lparr>transitioning := False\<rparr>)"
  by (simp add: drain.simps)

lemma afterTransition_finish:
  "transitionQueue (snd p) = [] \<Longrightarrow> afterTransition p = finish p"
  by (cases p rule: finish.cases) (simp_all add: afterTransition_def drain_Nil)

lemma drain_single:
  assumes "transitionQueue m = []"
  shows "drain (m\<lparr>transitionQueue := [q]\<rparr>) = finish (startTransition q (m\<lparr>transitioning := True\<rparr>))"
proof -
  have eq: "m\<lparr>transitioning := True, transitionQueue := []\<rparr> = m\<lparr>transitioning := True\<rparr>"
    using assms by simp
  have q1: "transitionQueue (snd (startTransition q (m\<lparr>transitioning := True\<rparr>))) = []"
    using assms by (simp add: startTransition_queue)
  show ?thesis
    using q1
    by (cases "startTransition q (m\<lparr>transitioning := True\<rparr>)" rule: finish.cases)
       (simp_all add: drain.simps [of "m\<lparr>transitionQueue := [q]\<rparr>"] eq drain_Nil)
qed

text \<open>
  Between two steps the queue is empty: a call appends its request and takes it off again
  in the same synchronous run, whatever is in flight.
\<close>

lemma deliver_machine: "machine (deliver k p rt) = snd p"
  by (cases p rule: finish.cases) (simp_all add: deliver_def)

lemma finish_queue: "transitionQueue (snd (finish p)) = transitionQueue (snd p)"
  by (cases p rule: finish.cases) simp_all

lemma step_queue_empty:
  assumes "transitionQueue (machine rt) = []"
  shows "transitionQueue (machine (step e rt)) = []"
proof (cases e)
  case (CallEnterState n rest)
  show ?thesis
    using assms drain_single [OF assms, of "Request n forward rest"]
    by (simp add: CallEnterState Let_def deliver_machine finish_queue startTransition_queue)
next
  case (CallExitState rest)
  let ?m1 = "(machine rt)\<lparr>previousStates := butlast (previousStates (machine rt))\<rparr>"
  have q: "transitionQueue ?m1 = []" using assms by simp
  show ?thesis
    using assms drain_single [OF q]
    by (simp add: CallExitState Let_def deliver_machine finish_queue startTransition_queue)
next
  case (Settle k)
  show ?thesis
  proof (cases "map_of (inFlight rt) k")
    case None
    with assms show ?thesis by (simp add: Settle)
  next
    case (Some s)
    have "transitionQueue (snd (resume s (machine rt))) = []"
      using assms by (simp add: resume_queue)
    then show ?thesis
      by (simp add: Settle Some deliver_machine afterTransition_finish finish_queue)
  qed
qed

lemma call_starts_own_request:
  assumes "transitionQueue (machine rt) = []"
  shows "machine (step (CallEnterState n rest) rt) =
     snd (finish (startTransition (Request n forward rest) ((machine rt)\<lparr>transitioning := True\<rparr>)))"
  using assms drain_single [OF assms, of "Request n forward rest"]
  by (simp add: Let_def deliver_machine)

lemma settle_deliver:
  assumes "inFlight rt = []"
  shows "step (Settle k) (deliver k p rt) = deliver k (onSettle p) rt"
proof (cases p)
  case (Pair x m)
  show ?thesis
  proof (cases x)
    case (Suspended s)
    obtain y m' where r: "afterTransition (resume s m) = (y, m')"
      by (cases "afterTransition (resume s m)")
    show ?thesis using assms
      by (cases y) (simp_all add: Pair Suspended deliver_def r)
  next
    case (Finished settled)
    then show ?thesis using assms by (simp add: Pair deliver_def)
  qed
qed

lemma onSettle_finish:
  assumes "transitionQueue (snd p) = []"
  shows "onSettle (finish p) = finish (advance p)"
proof (cases p rule: finish.cases)
  case (1 s m)
  have "transitionQueue (snd (resume s m)) = []"
    using assms 1 by (simp add: resume_queue)
  then show ?thesis by (simp add: 1 afterTransition_finish)
next
  case (2 e m)
  then show ?thesis by simp
next
  case (3 m)
  then show ?thesis by simp
next
  case (4 r m)
  then show ?thesis by simp
qed

lemma advance_queue: "transitionQueue (snd (advance p)) = transitionQueue (snd p)"
  by (cases p rule: advance.cases) (simp_all add: resume_queue)

lemma finish_runTransition:
  "finish (Finished (fst r), snd r) = (Finished (fst (alone r)), snd (alone r))"
  by (cases r rule: alone.cases) simp_all

lemma settled_single:
  assumes "transitionQueue m = []" and "inFlight rt = []"
  shows "step (Settle k) (step (Settle k) (step (Settle k)
           (deliver k (drain (m\<lparr>transitionQueue := [q]\<rparr>)) rt))) =
         deliver k (finish (Finished (fst (runTransition q (m\<lparr>transitioning := True\<rparr>))),
                            snd (runTransition q (m\<lparr>transitioning := True\<rparr>)))) rt"
proof -
  let ?p = "startTransition q (m\<lparr>transitioning := True\<rparr>)"
  have q0: "transitionQueue (snd ?p) = []"
    using assms(1) by (simp add: startTransition_queue)
  then have q1: "transitionQueue (snd (advance ?p)) = []"
    and q2: "transitionQueue (snd (advance (advance ?p))) = []"
    by (simp_all add: advance_queue)
  have "step (Settle k) (step (Settle k) (step (Settle k)
           (deliver k (drain (m\<lparr>transitionQueue := [q]\<rparr>)) rt))) =
        deliver k (onSettle (onSettle (onSettle (finish ?p)))) rt"
    by (simp add: drain_single [OF assms(1)] settle_deliver [OF assms(2)] del: step.simps)
  also have "\<dots> = deliver k (finish (advance (advance (advance ?p)))) rt"
    by (simp add: onSettle_finish q0 q1 q2)
  finally show ?thesis by (simp add: startTransition_runTransition)
qed

lemma deliver_Finished:
  "inFlight rt = [] \<Longrightarrow>
   deliver k (Finished x, m') (rt\<lparr>calls := c\<rparr>) =
     rt\<lparr>machine := m', results := results rt @ [(k, x)], calls := c\<rparr>"
  by (cases rt) (simp add: deliver_def)

text \<open>
  A host that makes a call with nothing in flight and lets its callbacks settle (three
  waits at most) before anything else happens gets the machine and the result of
  \<open>enterState\<close> or \<open>exitState\<close> as defined in the first part.
\<close>

lemma awaited_enterState_agrees:
  assumes "transitionQueue (machine rt) = []" and "inFlight rt = []"
  shows "fold step [CallEnterState n rest, Settle (calls rt), Settle (calls rt), Settle (calls rt)] rt =
     rt\<lparr>machine := snd (enterState n rest (machine rt)),
        results := results rt @ [(calls rt, fst (enterState n rest (machine rt)))],
        calls := Suc (calls rt)\<rparr>"
proof -
  let ?rt = "rt\<lparr>calls := Suc (calls rt)\<rparr>"
  let ?q = "Request n forward rest"
  have i: "inFlight ?rt = []" using assms(2) by simp
  obtain x m' where e: "enterState n rest (machine rt) = (x, m')"
    by (cases "enterState n rest (machine rt)")
  then have f: "finish (Finished (fst (runTransition ?q ((machine rt)\<lparr>transitioning := True\<rparr>))),
                        snd (runTransition ?q ((machine rt)\<lparr>transitioning := True\<rparr>))) =
      (Finished x, m')"
    by (simp add: finish_runTransition enterState_single [OF assms(1)])
  have c: "step (CallEnterState n rest) rt =
      deliver (calls rt) (drain ((machine rt)\<lparr>transitionQueue := [?q]\<rparr>)) ?rt"
    using assms(1) by (simp add: Let_def)
  have "fold step [CallEnterState n rest, Settle (calls rt), Settle (calls rt), Settle (calls rt)] rt =
      step (Settle (calls rt)) (step (Settle (calls rt)) (step (Settle (calls rt))
        (deliver (calls rt) (drain ((machine rt)\<lparr>transitionQueue := [?q]\<rparr>)) ?rt)))"
    by (simp add: c del: step.simps)
  also have "\<dots> = deliver (calls rt) (Finished x, m') ?rt"
    by (simp only: settled_single [OF assms(1) i] f)
  also have "\<dots> = rt\<lparr>machine := m', results := results rt @ [(calls rt, x)], calls := Suc (calls rt)\<rparr>"
    by (rule deliver_Finished [OF assms(2)])
  finally show ?thesis by (simp add: e)
qed

lemma awaited_exitState_agrees:
  assumes "transitionQueue (machine rt) = []" and "inFlight rt = []"
  shows "fold step [CallExitState rest, Settle (calls rt), Settle (calls rt), Settle (calls rt)] rt =
     rt\<lparr>machine := snd (exitState rest (machine rt)),
        results := results rt @ [(calls rt, fst (exitState rest (machine rt)))],
        calls := Suc (calls rt)\<rparr>"
proof (cases "previousStates (machine rt) = []")
  case True
  with assms show ?thesis by (cases rt) (simp add: exitState_def)
next
  case False
  let ?rt = "rt\<lparr>calls := Suc (calls rt)\<rparr>"
  let ?m1 = "(machine rt)\<lparr>previousStates := butlast (previousStates (machine rt))\<rparr>"
  let ?q = "Request (name (last (previousStates (machine rt)))) backward
              (if rest \<noteq> [] then rest else args (last (previousStates (machine rt))))"
  have i: "inFlight ?rt = []" using assms(2) by simp
  have q: "transitionQueue ?m1 = []" using assms(1) by simp
  obtain x m' where e: "exitState rest (machine rt) = (x, m')"
    by (cases "exitState rest (machine rt)")
  then have f: "finish (Finished (fst (runTransition ?q (?m1\<lparr>transitioning := True\<rparr>))),
                        snd (runTransition ?q (?m1\<lparr>transitioning := True\<rparr>))) = (Finished x, m')"
    using False by (simp add: finish_runTransition exitState_single [OF assms(1)])
  have c: "step (CallExitState rest) rt =
      deliver (calls rt) (drain (?m1\<lparr>transitionQueue := [?q]\<rparr>)) ?rt"
    using assms(1) False by (simp add: Let_def)
  have "fold step [CallExitState rest, Settle (calls rt), Settle (calls rt), Settle (calls rt)] rt =
      step (Settle (calls rt)) (step (Settle (calls rt)) (step (Settle (calls rt))
        (deliver (calls rt) (drain (?m1\<lparr>transitionQueue := [?q]\<rparr>)) ?rt)))"
    by (simp add: c del: step.simps)
  also have "\<dots> = deliver (calls rt) (Finished x, m') ?rt"
    by (simp only: settled_single [OF q i] f)
  also have "\<dots> = rt\<lparr>machine := m', results := results rt @ [(calls rt, x)], calls := Suc (calls rt)\<rparr>"
    by (rule deliver_Finished [OF assms(2)])
  finally show ?thesis by (simp add: e)
qed

text \<open>
  C1. Claimed: requests are taken off the queue and run in the order of their arrival, the
  check/exit/enter sequence of one request ends before that of the next begins, and a call
  of \<open>enterState\<close> or \<open>exitState\<close> made while a drain is in flight only appends its request.

  The code sets \<open>_transitioning\<close> and never reads it, so every call takes its own request
  off the queue at once. On the machine of the first test, in \<open>state2\<close>, with a check that
  refuses the transition from \<open>state3\<close> to \<open>state1\<close>: after \<open>enterState('state3')\<close> call 0 is
  suspended on the \<open>exit\<close> callback of \<open>state2\<close>; a call \<open>enterState('state1')\<close> made then leaves
  the queue empty, is in flight as call 1 beside call 0, and has invoked the \<open>exit\<close> callback
  of \<open>state2\<close> a second time. When the callbacks settle in the order they were started, the
  machine passes through \<open>state3\<close> into \<open>state1\<close>: the check from \<open>state3\<close> to \<open>state1\<close> is never
  asked and the \<open>exit\<close> callback of \<open>state3\<close> never runs. A host that lets the first call finish
  before it makes the second has the check asked, and stays in \<open>state3\<close>.
\<close>

theorem second_call_starts_second_drain:
  "map fst (inFlight (step (CallEnterState ''state3'' []) (start delayed))) = [0] \<and>
   transitionQueue (machine (fold step
      [CallEnterState ''state3'' [], CallEnterState ''state1'' []] (start delayed))) = [] \<and>
   map fst (inFlight (fold step
      [CallEnterState ''state3'' [], CallEnterState ''state1'' []] (start delayed))) = [0, 1] \<and>
   invocations (machine (fold step
      [CallEnterState ''state3'' [], CallEnterState ''state1'' []] (start delayed))) =
     [Invoked ''state2'' ''enter'' [], Invoked ''state2'' ''exit'' [], Invoked ''state2'' ''exit'' []] \<and>
   currentStateName (machine (fold step
      [CallEnterState ''state3'' [], CallEnterState ''state1'' [], Settle 0, Settle 1, Settle 0]
      (start delayed))) = ''state1'' \<and>
   invocations (machine (fold step
      [CallEnterState ''state3'' [], CallEnterState ''state1'' [], Settle 0, Settle 1, Settle 0]
      (start delayed))) =
     [Invoked ''state2'' ''enter'' [], Invoked ''state2'' ''exit'' [], Invoked ''state2'' ''exit'' [],
      Invoked ''state3'' ''enter'' []] \<and>
   currentStateName (machine (fold step
      [CallEnterState ''state3'' [], Settle 0, Settle 0, CallEnterState ''state1'' [], Settle 1]
      (start delayed))) = ''state3'' \<and>
   invocations (machine (fold step
      [CallEnterState ''state3'' [], Settle 0, Settle 0, CallEnterState ''state1'' [], Settle 1]
      (start delayed))) =
     [Invoked ''state2'' ''enter'' [], Invoked ''state2'' ''exit'' [], Invoked ''state3'' ''enter'' [],
      Checked ''state3'' ''state1'' []]"
  by (simp add: delayed_eval newFSM_def runtime_defs machine_defs returnsNothing_def refuses_def)

section \<open>Transition checks that resolve to an error\<close>

text \<open>
  C2. Claimed: when nothing else is queued or in flight and the check registered for
  (current state, target) resolves to an \<open>Error\<close>, the promise of \<open>enterState\<close> resolves with that
  \<open>Error\<close>.

  On the documentation's own example (\<open>idle\<close>, \<open>moving\<close>, a check that returns
  \<open>new Error("Some error")\<close> unless its argument is \<open>'ok'\<close>) the request does return the
  \<open>Error\<close>, and \<open>enterState\<close> resolves with \<open>undefined\<close>: \<open>_processTransition\<close> awaits the request
  and drops its value.
\<close>

theorem enterState_drops_guard_error:
  "transitionQueue idleMoving = [] \<and>
   currentStateName idleMoving = ''idle'' \<and>
   transitionCheckFor idleMoving ''idle'' ''moving'' = Some okCheck \<and>
   okCheck [JStr ''someData''] = Resolved (JError ''Some error'') \<and>
   fst (runTransition (Request ''moving'' forward [JStr ''someData'']) idleMoving) =
     Resolved (JError ''Some error'') \<and>
   fst (enterState ''moving'' [JStr ''someData''] idleMoving) = Resolved JUndefined"
  by (simp add: example_defs machine_defs runTransition.simps)

text \<open>
  C3. Claimed: after a request whose check resolves to an \<open>Error\<close>, forward or backward,
  the current state and the history are what they were before the call.

  Forward this holds (\<open>enterState_guard_error_unchanged\<close>). \<open>exitState\<close> pops the history
  entry before it queues the request and does not put it back: in \<open>state3\<close> with the history
  \<open>state1\<close>, \<open>state2\<close> and a check from \<open>state3\<close> to \<open>state2\<close> that resolves to an \<open>Error\<close>, the
  machine stays in \<open>state3\<close> and the entry for \<open>state2\<close> is gone.
\<close>

theorem exitState_guard_error_loses_entry:
  "transitionQueue noWayBack = [] \<and>
   currentStateName noWayBack = ''state3'' \<and>
   previousStates noWayBack = [\<lparr>name = ''state1'', args = []\<rparr>, \<lparr>name = ''state2'', args = []\<rparr>] \<and>
   transitionCheckFor noWayBack ''state3'' ''state2'' = Some refuses \<and>
   refuses [] = Resolved (JError ''stay'') \<and>
   invocations (snd (exitState [] noWayBack)) = [Checked ''state3'' ''state2'' []] \<and>
   currentStateName (snd (exitState [] noWayBack)) = ''state3'' \<and>
   previousStates (snd (exitState [] noWayBack)) = [\<lparr>name = ''state1'', args = []\<rparr>]"
  by (simp add: example_defs machine_defs runTransition.simps)

lemma enterState_guard_error_unchanged:
  assumes "transitionQueue m = []"
    and "transitionCheckFor m (currentStateName m) n = Some check"
    and "check rest = Resolved v" and "instanceofError v"
  shows "currentStateName (snd (enterState n rest m)) = currentStateName m \<and>
         previousStates (snd (enterState n rest m)) = previousStates m"
proof -
  have "\<not> proceeds (m\<lparr>transitioning := True\<rparr>) n rest"
    using assms by (simp add: proceeds_def allows_def)
  from runTransition_stays [OF this, of forward] show ?thesis
    by (simp add: enterState_single [OF assms(1)] alone_fields)
qed

section \<open>Setting the initial state\<close>

text \<open>
  What \<open>initialState\<close> does, by what the lookup of its name finds: nothing, and the call
  rejects and leaves the machine as it was; a state object, and the name becomes the
  initial and the current state, the history is emptied, and the promise settles as
  \<open>enter(...args)\<close> does, or resolves with \<open>undefined\<close> without an \<open>enter\<close>. The only
  callback invoked is that \<open>enter\<close>: no transition check is. The lookup finds nothing
  under a name that is neither registered nor inherited.
\<close>

lemma initialState_by_lookup:
  "(getState m stateName = None \<longrightarrow>
      initialState stateName rest m =
        (Rejected (JError (''Cannot set initial state '' @ dq @ stateName @ dq
           @ '' because it does not exist!'')), m)) \<and>
   (\<forall>newStateObj. getState m stateName = Some newStateObj \<longrightarrow>
      fst (initialState stateName rest m) =
        (case newStateObj ''enter'' of Some enter \<Rightarrow> enter rest | None \<Rightarrow> Resolved JUndefined) \<and>
      snd (initialState stateName rest m) =
        m\<lparr>initialStateName := stateName, currentStateName := stateName, previousStates := [],
          invocations := invocations m @
            (case newStateObj ''enter'' of Some enter \<Rightarrow> [Invoked stateName ''enter'' rest] | None \<Rightarrow> [])\<rparr>)"
  by (simp add: initialState_def invoke_def Let_def split: option.splits)

lemma getState_registered:
  "states m stateName = Some stateDef \<Longrightarrow> getState m stateName = Some (property stateDef)"
  by (simp add: getState_def)

lemma property_enter_exit:
  "property stateDef ''enter'' = stateDef ''enter''"
  "property stateDef ''exit'' = stateDef ''exit''"
  by (simp_all add: property_def objectPrototypeNames_def split: option.splits)

lemma getState_unknown:
  assumes "states m stateName = None" and "statesProto m = None"
    and "stateName \<notin> set objectPrototypeNames"
  shows "getState m stateName = None"
  using assms by (auto simp: getState_def objectPrototypeNames_def)

lemma initialState_registered:
  assumes "states m stateName = Some stateDef"
  shows "fst (initialState stateName rest m) =
           (case stateDef ''enter'' of Some enter \<Rightarrow> enter rest | None \<Rightarrow> Resolved JUndefined)"
    and "snd (initialState stateName rest m) =
           m\<lparr>initialStateName := stateName, currentStateName := stateName, previousStates := [],
             invocations := invocations m @
               (case stateDef ''enter'' of Some enter \<Rightarrow> [Invoked stateName ''enter'' rest] | None \<Rightarrow> [])\<rparr>"
  using initialState_by_lookup [of m stateName rest] getState_registered [OF assms]
  by (simp_all add: property_enter_exit)

lemma initialState_unknown:
  assumes "states m stateName = None" and "statesProto m = None"
    and "stateName \<notin> set objectPrototypeNames"
  shows "initialState stateName rest m =
     (Rejected (JError (''Cannot set initial state '' @ dq @ stateName @ dq
        @ '' because it does not exist!'')), m)"
  using initialState_by_lookup [of m stateName rest] getState_unknown [OF assms] by simp

text \<open>
  C4. Claimed: \<open>initialState(name, ...args)\<close> rejects when no state definition is registered
  under \<open>name\<close>; when one is registered it makes \<open>name\<close> the initial and the current state,
  empties the history and settles as the \<open>enter\<close> callback does.

  The second half holds (\<open>initialState_registered\<close>), and so does the first for every name
  that no plain object inherits (\<open>initialState_unknown\<close>). But the existence check is a
  lookup on a plain object, which also finds what the object inherits. On a fresh machine,
  with nothing registered, \<open>initialState('constructor')\<close> does not reject: it resolves with
  \<open>undefined\<close> and \<open>constructor\<close> is the initial and the current state. On the machine with
  the three states \<open>state1\<close>, \<open>state2\<close>, \<open>state3\<close>, in \<open>state3\<close>, the same call in addition
  empties the history.
\<close>

theorem initialState_inherited_name:
  "states newFSM ''constructor'' = None \<and>
   initialState ''constructor'' [] newFSM =
     (Resolved JUndefined,
      newFSM\<lparr>initialStateName := ''constructor'', currentStateName := ''constructor''\<rparr>) \<and>
   states noWayBack ''constructor'' = None \<and>
   dom (states noWayBack) = {''state1'', ''state2'', ''state3''} \<and>
   previousStates noWayBack = [\<lparr>name = ''state1'', args = []\<rparr>, \<lparr>name = ''state2'', args = []\<rparr>] \<and>
   initialState ''constructor'' [] noWayBack =
     (Resolved JUndefined,
      noWayBack\<lparr>initialStateName := ''constructor'', currentStateName := ''constructor'',
        previousStates := []\<rparr>)"
  by (simp add: noWayBack_eval newFSM_def initialState_def lookup_defs Let_def) auto

section \<open>Returning to the previous state\<close>

text \<open>
  C5. \<open>exitState(...overrideArgs)\<close> with a history that is not empty and nothing else queued,
  in a run that stays inside the model. One entry is popped: the history afterwards is
  the old one without its last entry, or empty when the machine moved into the initial
  state. The target is the name of the entry, and the callbacks invoked are exactly
  those of the request for that target (\<open>asked\<close>: the check, the \<open>exit\<close> of the current
  state, the \<open>enter\<close> of the entry's state, as far as the request gets), each with
  \<open>overrideArgs\<close> when there are any and with the arguments stored in the entry otherwise.
  When the request is not refused the current state afterwards is the name of the entry,
  and the promise settles as the \<open>enter\<close> of the entry's state, called with those
  arguments, does (its value is dropped: the promise resolves with \<open>undefined\<close>);
  when the request is refused the current state is what it was.
\<close>

theorem exitState_pops_one_entry:
  assumes "previousStates m \<noteq> []" and "transitionQueue m = []"
    and "fst (exitState rest m) \<noteq> Unmodelled"
  shows "let entry = last (previousStates m);
             dataArgs = (if rest \<noteq> [] then rest else args entry);
             m' = snd (exitState rest m)
         in previousStates m' =
              (if proceeds m (name entry) dataArgs \<and> name entry = initialStateName m then []
               else butlast (previousStates m)) \<and>
            invocations m' = invocations m @ asked m (name entry) dataArgs \<and>
            (if name entry = currentStateName m \<or> proceeds m (name entry) dataArgs
             then currentStateName m' = name entry
             else currentStateName m' = currentStateName m) \<and>
            (if proceeds m (name entry) dataArgs
             then fst (exitState rest m) =
                    (case (case getState m (name entry) of
                             None \<Rightarrow> None
                           | Some newStateObj \<Rightarrow> newStateObj ''enter'') of
                       None \<Rightarrow> Resolved JUndefined
                     | Some enter \<Rightarrow>
                         (case enter dataArgs of
                            Resolved v \<Rightarrow> Resolved JUndefined
                          | Rejected e \<Rightarrow> Rejected e
                          | Unmodelled \<Rightarrow> Unmodelled))
             else True)"
proof -
  define entry where "entry = last (previousStates m)"
  define dataArgs where "dataArgs = (if rest \<noteq> [] then rest else args entry)"
  define popped where "popped = m\<lparr>previousStates := butlast (previousStates m), transitioning := True\<rparr>"
  define m' where "m' = snd (exitState rest m)"
  have ex: "exitState rest m = alone (runTransition (Request (name entry) backward dataArgs) popped)"
    unfolding entry_def dataArgs_def popped_def
    by (rule exitState_single [OF assms(2) assms(1)])
  have cur: "currentStateName m' = currentStateName (snd (runTransition (Request (name entry) backward dataArgs) popped))"
    and prev: "previousStates m' = previousStates (snd (runTransition (Request (name entry) backward dataArgs) popped))"
    and inv: "invocations m' = invocations (snd (runTransition (Request (name entry) backward dataArgs) popped))"
    unfolding m'_def by (simp_all add: ex alone_fields)
  have pr: "proceeds popped = proceeds m" and ask: "asked popped = asked m"
    and gs: "getState popped = getState m"
    by (simp_all add: popped_def)
  have fields: "currentStateName popped = currentStateName m" "invocations popped = invocations m"
    "previousStates popped = butlast (previousStates m)" "initialStateName popped = initialStateName m"
    by (simp_all add: popped_def)
  have h: "previousStates m' =
      (if proceeds m (name entry) dataArgs \<and> name entry = initialStateName m then []
       else butlast (previousStates m))"
  proof (cases "proceeds m (name entry) dataArgs")
    case True
    then have "proceeds popped (name entry) dataArgs" by (simp add: pr)
    from runTransition_proceeds(2) [OF this, of backward] show ?thesis
      using True by (simp add: prev moved_def fields)
  next
    case False
    then have "\<not> proceeds popped (name entry) dataArgs" by (simp add: pr)
    from runTransition_stays(2) [OF this, of backward] show ?thesis
      using False by (simp add: prev fields)
  qed
  have i: "invocations m' = invocations m @ asked m (name entry) dataArgs"
    by (simp add: inv runTransition_asked ask fields)
  have c: "if name entry = currentStateName m \<or> proceeds m (name entry) dataArgs
      then currentStateName m' = name entry else currentStateName m' = currentStateName m"
  proof (cases "proceeds m (name entry) dataArgs")
    case True
    then have "proceeds popped (name entry) dataArgs" by (simp add: pr)
    from runTransition_proceeds(1) [OF this, of backward] show ?thesis
      using True by (simp add: cur)
  next
    case False
    then have "\<not> proceeds popped (name entry) dataArgs" by (simp add: pr)
    from runTransition_stays(1) [OF this, of backward] show ?thesis
      using False by (auto simp: cur fields)
  qed
  have r: "if proceeds m (name entry) dataArgs
      then fst (exitState rest m) =
             (case (case getState m (name entry) of
                      None \<Rightarrow> None
                    | Some newStateObj \<Rightarrow> newStateObj ''enter'') of
                None \<Rightarrow> Resolved JUndefined
              | Some enter \<Rightarrow>
                  (case enter dataArgs of
                     Resolved v \<Rightarrow> Resolved JUndefined
                   | Rejected e \<Rightarrow> Rejected e
                   | Unmodelled \<Rightarrow> Unmodelled))
      else True"
  proof (cases "proceeds m (name entry) dataArgs")
    case True
    then have p: "proceeds popped (name entry) dataArgs" by (simp add: pr)
    from True obtain obj where g: "getState m (name entry) = Some obj"
      by (auto simp: proceeds_def leaves_def)
    then have "getState popped (name entry) = Some obj" by (simp add: gs)
    from runTransition_result [OF p this, of backward] show ?thesis
      using True g by (simp add: ex alone_result split: option.splits)
  next
    case False
    then show ?thesis by simp
  qed
  from h i c r show ?thesis
    unfolding Let_def entry_def [symmetric] dataArgs_def [symmetric] m'_def [symmetric] by blast
qed

theorem exitState_pops_one_entry_witness:
  "previousStates bothWays \<noteq> [] \<and> transitionQueue bothWays = [] \<and>
   fst (exitState [] bothWays) \<noteq> Unmodelled \<and>
   fst (exitState [JNum 7] bothWays) \<noteq> Unmodelled \<and>
   last (previousStates bothWays) = \<lparr>name = ''idle'', args = [JStr ''ok'']\<rparr> \<and>
   currentStateName bothWays = ''moving'' \<and>
   proceeds bothWays ''idle'' [JStr ''ok''] \<and>
   previousStates (snd (exitState [] bothWays)) = [] \<and>
   currentStateName (snd (exitState [] bothWays)) = ''idle'' \<and>
   invocations (snd (exitState [] bothWays)) = invocations bothWays @
     [Checked ''moving'' ''idle'' [JStr ''ok''], Invoked ''moving'' ''exit'' [JStr ''ok''],
      Invoked ''idle'' ''enter'' [JStr ''ok'']] \<and>
   fst (exitState [] bothWays) = Resolved JUndefined \<and>
   \<not> proceeds bothWays ''idle'' [JNum 7] \<and>
   previousStates (snd (exitState [JNum 7] bothWays)) = [] \<and>
   currentStateName (snd (exitState [JNum 7] bothWays)) = ''moving'' \<and>
   invocations (snd (exitState [JNum 7] bothWays)) = invocations bothWays @
     [Checked ''moving'' ''idle'' [JNum 7]]"
proof -
  have h: "previousStates bothWays \<noteq> []" and q: "transitionQueue bothWays = []"
    by (simp_all add: bothWays_eval newFSM_def)
  have u: "fst (exitState [] bothWays) \<noteq> Unmodelled"
    and u7: "fst (exitState [JNum 7] bothWays) \<noteq> Unmodelled"
    by (simp_all add: bothWays_eval machine_defs runTransition.simps returnsNothing_def okCheck_def)
  have e: "last (previousStates bothWays) = \<lparr>name = ''idle'', args = [JStr ''ok'']\<rparr>"
    and c: "currentStateName bothWays = ''moving''" and i: "initialStateName bothWays = ''idle''"
    and b: "butlast (previousStates bothWays) = []"
    by (simp_all add: bothWays_eval newFSM_def)
  have p: "proceeds bothWays ''idle'' [JStr ''ok'']"
    and p7: "\<not> proceeds bothWays ''idle'' [JNum 7]"
    by (simp_all add: bothWays_eval newFSM_def proceeds_def leaves_def allows_def lookup_defs
        returnsNothing_def okCheck_def)
  have a: "asked bothWays ''idle'' [JStr ''ok''] =
      [Checked ''moving'' ''idle'' [JStr ''ok''], Invoked ''moving'' ''exit'' [JStr ''ok''],
       Invoked ''idle'' ''enter'' [JStr ''ok'']]"
    and a7: "asked bothWays ''idle'' [JNum 7] = [Checked ''moving'' ''idle'' [JNum 7]]"
    by (simp_all add: bothWays_eval newFSM_def asked_def allows_def lookup_defs
        returnsNothing_def okCheck_def)
  have g: "getState bothWays ''idle'' =
      Some (property [''enter'' \<mapsto> returnsNothing, ''exit'' \<mapsto> returnsNothing])"
    by (simp add: bothWays_eval newFSM_def getState_def)
  have n: "property [''enter'' \<mapsto> returnsNothing, ''exit'' \<mapsto> returnsNothing] ''enter'' = Some returnsNothing"
    by (simp add: property_def)
  have rn: "returnsNothing [JStr ''ok''] = Resolved JUndefined" by (simp add: returnsNothing_def)
  from exitState_pops_one_entry [OF h q u] exitState_pops_one_entry [OF h q u7]
  show ?thesis
    using h q u u7 by (simp add: e c i b p p7 a a7 g n rn Let_def)
qed

text \<open>
  C6. With an empty history \<open>exitState\<close> rejects with the \<open>Error\<close> "No previous state to
  transition to" and changes nothing: not the current state, not the history, not the
  queue.
\<close>

theorem exitState_empty_history:
  "previousStates m = [] \<Longrightarrow>
     exitState rest m = (Rejected (JError ''No previous state to transition to''), m)"
  by (simp add: exitState_def)

theorem exitState_empty_history_witness:
  "previousStates fourStates = [] \<and>
   exitState [] fourStates = (Rejected (JError ''No previous state to transition to''), fourStates)"
proof -
  have h: "previousStates fourStates = []" by (simp add: fourStates_eval newFSM_def)
  from exitState_empty_history [OF h, of "[]"] h show ?thesis by simp
qed

section \<open>The history is emptied in the initial state\<close>

text \<open>
  C7. Whenever the current state becomes the initial state, the history is empty
  afterwards: after \<open>initialState\<close> on a name under which a state object is found; after a request, forward or
  backward, that proceeds to the initial state; and after a call of \<open>enterState\<close> or
  \<open>exitState\<close>, whatever is queued, that has changed the current state to the initial one.
\<close>

theorem history_emptied_on_initial:
  "(getState m stateName \<noteq> None \<longrightarrow>
      currentStateName (snd (initialState stateName rest m)) =
        initialStateName (snd (initialState stateName rest m)) \<and>
      previousStates (snd (initialState stateName rest m)) = []) \<and>
   (proceeds m newStateName rest \<and> newStateName = initialStateName m \<longrightarrow>
      currentStateName (snd (runTransition (Request newStateName dir rest) m)) = initialStateName m \<and>
      previousStates (snd (runTransition (Request newStateName dir rest) m)) = []) \<and>
   (currentStateName (snd (enterState newStateName rest m)) \<noteq> currentStateName m \<and>
    currentStateName (snd (enterState newStateName rest m)) =
      initialStateName (snd (enterState newStateName rest m)) \<longrightarrow>
      previousStates (snd (enterState newStateName rest m)) = []) \<and>
   (currentStateName (snd (exitState rest m)) \<noteq> currentStateName m \<and>
    currentStateName (snd (exitState rest m)) = initialStateName (snd (exitState rest m)) \<longrightarrow>
      previousStates (snd (exitState rest m)) = [])"
proof -
  have a: "getState m stateName \<noteq> None \<longrightarrow>
      currentStateName (snd (initialState stateName rest m)) =
        initialStateName (snd (initialState stateName rest m)) \<and>
      previousStates (snd (initialState stateName rest m)) = []"
    by (auto simp: initialState_def Let_def split: option.splits)
  have b: "proceeds m newStateName rest \<and> newStateName = initialStateName m \<longrightarrow>
      currentStateName (snd (runTransition (Request newStateName dir rest) m)) = initialStateName m \<and>
      previousStates (snd (runTransition (Request newStateName dir rest) m)) = []"
    using runTransition_proceeds [of m newStateName rest dir] by (auto simp: moved_def)
  let ?e = "m\<lparr>transitionQueue := transitionQueue m @ [Request newStateName forward rest]\<rparr>"
  have "settledHistory ?e (snd (processTransition ?e))"
    by (rule processTransition_settledHistory)
  then have c: "currentStateName (snd (enterState newStateName rest m)) \<noteq> currentStateName m \<and>
    currentStateName (snd (enterState newStateName rest m)) =
      initialStateName (snd (enterState newStateName rest m)) \<longrightarrow>
      previousStates (snd (enterState newStateName rest m)) = []"
    by (auto simp: settledHistory_def enterState_def split: if_splits)
  have d: "currentStateName (snd (exitState rest m)) \<noteq> currentStateName m \<and>
    currentStateName (snd (exitState rest m)) = initialStateName (snd (exitState rest m)) \<longrightarrow>
      previousStates (snd (exitState rest m)) = []"
  proof (cases "previousStates m = []")
    case True
    then show ?thesis by (simp add: exitState_def)
  next
    case False
    let ?x = "m\<lparr>previousStates := butlast (previousStates m),
      transitionQueue := transitionQueue m @
        [Request (name (last (previousStates m))) backward
           (if rest \<noteq> [] then rest else args (last (previousStates m)))]\<rparr>"
    have "settledHistory ?x (snd (processTransition ?x))"
      by (rule processTransition_settledHistory)
    then show ?thesis using False
      by (auto simp: settledHistory_def exitState_def Let_def split: if_splits)
  qed
  from a b c d show ?thesis by blast
qed

theorem history_emptied_on_initial_witness:
  "getState noWayBack ''state2'' \<noteq> None \<and>
   previousStates noWayBack \<noteq> [] \<and>
   currentStateName (snd (initialState ''state2'' [] noWayBack)) = ''state2'' \<and>
   initialStateName (snd (initialState ''state2'' [] noWayBack)) = ''state2'' \<and>
   previousStates (snd (initialState ''state2'' [] noWayBack)) = [] \<and>
   proceeds noWayBack ''state1'' [] \<and> initialStateName noWayBack = ''state1'' \<and>
   previousStates (snd (runTransition (Request ''state1'' backward []) noWayBack)) = [] \<and>
   currentStateName (snd (enterState ''state1'' [] noWayBack)) = ''state1'' \<and>
   previousStates (snd (enterState ''state1'' [] noWayBack)) = [] \<and>
   currentStateName (snd (exitState [] movingNow)) = ''idle'' \<and>
   previousStates (snd (exitState [] movingNow)) = []"
proof -
  note nwb = noWayBack_eval
  have g: "getState noWayBack ''state2'' \<noteq> None" and h: "previousStates noWayBack \<noteq> []"
    and i: "initialStateName noWayBack = ''state1''" and c: "currentStateName noWayBack = ''state3''"
    by (simp_all add: nwb newFSM_def lookup_defs)
  have p: "proceeds noWayBack ''state1'' []"
    by (simp add: nwb newFSM_def proceeds_def leaves_def allows_def lookup_defs)
  have e1: "currentStateName (snd (initialState ''state2'' [] noWayBack)) = ''state2''"
    by (simp add: nwb newFSM_def initialState_def lookup_defs Let_def)
  have e2: "currentStateName (snd (enterState ''state1'' [] noWayBack)) = ''state1''"
    and e3: "initialStateName (snd (enterState ''state1'' [] noWayBack)) = ''state1''"
    by (simp_all add: nwb machine_defs runTransition.simps)
  have e4: "currentStateName (snd (exitState [] movingNow)) = ''idle''"
    and e5: "initialStateName (snd (exitState [] movingNow)) = ''idle''"
    and e6: "currentStateName movingNow = ''moving''"
    by (simp_all add: movingNow_eval machine_defs runTransition.simps returnsNothing_def)
  from history_emptied_on_initial [of noWayBack "''state2''" "[]" "''state1''" backward]
    history_emptied_on_initial [of movingNow "''idle''" "[]" "''idle''" backward]
  show ?thesis
    using g h i c p e1 e2 e3 e4 e5 e6 by simp
qed

section \<open>Which state is the initial one\<close>

text \<open>
  C8 as stated: the name of the first \<open>defineState\<close> on a fresh machine becomes
  \<open>initialStateName()\<close> and no later \<open>defineState\<close> changes it. The empty string is the
  runtime's mark for "no initial state yet", so a first state named by the empty string
  leaves the designation open and the next \<open>defineState\<close> takes it.
\<close>

theorem first_defined_state_when_empty_name:
  "initialStateName (defineState '''' Map.empty newFSM) = '''' \<and>
   initialStateName (defineState ''state2'' Map.empty (defineState '''' Map.empty newFSM)) = ''state2''"
  by (simp add: defineState_def newFSM_def)

text \<open>
  C8, amended. When the name of the first \<open>defineState\<close> on a fresh machine is not the empty
  string, it is \<open>initialStateName()\<close> after that call and after any sequence of further
  \<open>defineState\<close> calls. Call by call: \<open>defineState(name, ...)\<close> sets the initial state name
  to \<open>name\<close> when it is the empty string at the time of the call, and leaves it as it is
  otherwise; \<open>initialState(name, ...)\<close> leaves it as it is when its existence check finds
  nothing under \<open>name\<close>, and sets it to \<open>name\<close> otherwise, however the \<open>enter\<close> callback
  settles; \<open>defineTransition\<close> between names that no plain object inherits, \<open>enterState\<close>,
  \<open>exitState\<close> and \<open>raiseEvent\<close> leave it as it is.
\<close>

theorem first_defined_state_is_initial:
  "(stateName \<noteq> '''' \<longrightarrow>
      initialStateName (defineState stateName stateDef newFSM) = stateName \<and>
      initialStateName (defineStates others (defineState stateName stateDef newFSM)) = stateName) \<and>
   initialStateName (defineState other otherDef m) =
     (if initialStateName m = '''' then other else initialStateName m) \<and>
   initialStateName (snd (initialState other rest m)) =
     (if getState m other = None then initialStateName m else other) \<and>
   (fromState \<notin> set objectPrototypeNames \<and> toState \<noteq> ''__proto__'' \<longrightarrow>
      map_option initialStateName (perform (DefineTransition fromState toState transitionCheck) m) =
        Some (initialStateName m)) \<and>
   initialStateName (snd (enterState other rest m)) = initialStateName m \<and>
   initialStateName (snd (exitState rest m)) = initialStateName m \<and>
   initialStateName (snd (raiseEvent eventName rest m)) = initialStateName m"
proof -
  have f: "initialStateName (defineState stateName stateDef newFSM) = stateName"
    by (simp add: defineState_initial newFSM_def)
  then have a: "stateName \<noteq> '''' \<longrightarrow>
      initialStateName (defineState stateName stateDef newFSM) = stateName \<and>
      initialStateName (defineStates others (defineState stateName stateDef newFSM)) = stateName"
    using defineStates_initial [of "defineState stateName stateDef newFSM" others] by simp
  have t: "fromState \<notin> set objectPrototypeNames \<and> toState \<noteq> ''__proto__'' \<longrightarrow>
      map_option initialStateName (perform (DefineTransition fromState toState transitionCheck) m) =
        Some (initialStateName m)"
    by (simp add: defineTransition_def split: option.splits)
  from a t show ?thesis
    by (simp add: defineState_initial initialState_initial enterState_initial exitState_initial
        raiseEvent_initial)
qed

theorem first_defined_state_is_initial_witness:
  "''state1'' \<noteq> '''' \<and>
   initialStateName (defineStates [(''state2'', Map.empty), ('''', Map.empty), (''state3'', Map.empty)]
      (defineState ''state1'' Map.empty newFSM)) = ''state1'' \<and>
   getState fourStates ''state2'' \<noteq> None \<and>
   initialStateName (snd (initialState ''state2'' [] fourStates)) = ''state2'' \<and>
   getState fourStates ''state9'' = None \<and>
   initialStateName (snd (initialState ''state9'' [] fourStates)) = ''state1'' \<and>
   ''state1'' \<notin> set objectPrototypeNames \<and> ''state2'' \<noteq> ''__proto__'' \<and>
   map_option initialStateName (perform (DefineTransition ''state1'' ''state2'' refuses) fourStates) =
     Some ''state1''"
proof -
  have g: "getState fourStates ''state2'' \<noteq> None" "getState fourStates ''state9'' = None"
    "initialStateName fourStates = ''state1''"
    by (simp_all add: fourStates_eval newFSM_def lookup_defs)
  have d: "''state1'' \<notin> set objectPrototypeNames" "''state2'' \<noteq> ''__proto__''"
    by (simp_all add: objectPrototypeNames_def)
  from first_defined_state_is_initial [where stateName = "''state1''" and stateDef = Map.empty
      and others = "[(''state2'', Map.empty), ('''', Map.empty), (''state3'', Map.empty)]"
      and other = "''state2''" and rest = "[]" and m = fourStates
      and fromState = "''state1''" and toState = "''state2''" and transitionCheck = refuses]
    first_defined_state_is_initial [where stateName = "''state1''" and stateDef = Map.empty
      and others = "[]" and other = "''state9''" and rest = "[]" and m = fourStates
      and fromState = "''state1''" and toState = "''state2''" and transitionCheck = refuses]
  show ?thesis using g d by simp
qed

section \<open>An enter callback that resolves to an error\<close>

text \<open>
  C9. A forward request that proceeds (its check and the \<open>exit\<close> of the current state let it
  pass) and whose target has an \<open>enter\<close> that resolves to an \<open>Error\<close> is not rolled back: the
  \<open>Error\<close> is the result of the request, the current state is the target, and the history
  holds the entry pushed for the state that was left, unless the target is the initial
  state and the history was emptied. With nothing else queued the same holds of the
  machine after \<open>enterState\<close>.
\<close>

theorem enter_error_not_rolled_back:
  assumes "proceeds m newStateName rest"
    and "getState m newStateName = Some newStateObj"
    and "newStateObj ''enter'' = Some enter"
    and "enter rest = Resolved err" and "instanceofError err"
  shows "fst (runTransition (Request newStateName forward rest) m) = Resolved err \<and>
     currentStateName (snd (runTransition (Request newStateName forward rest) m)) = newStateName \<and>
     previousStates (snd (runTransition (Request newStateName forward rest) m)) =
       (if newStateName = initialStateName m then []
        else previousStates m @ [\<lparr>name = currentStateName m, args = rest\<rparr>]) \<and>
     (if transitionQueue m = []
      then currentStateName (snd (enterState newStateName rest m)) = newStateName \<and>
           previousStates (snd (enterState newStateName rest m)) =
             (if newStateName = initialStateName m then []
              else previousStates m @ [\<lparr>name = currentStateName m, args = rest\<rparr>])
      else True)"
proof -
  have r: "fst (runTransition (Request newStateName forward rest) m) = Resolved err"
    using runTransition_result [OF assms(1) assms(2), of forward] assms(3) assms(4) by simp
  have s: "currentStateName (snd (runTransition (Request newStateName forward rest) m)) = newStateName"
    "previousStates (snd (runTransition (Request newStateName forward rest) m)) =
       (if newStateName = initialStateName m then []
        else previousStates m @ [\<lparr>name = currentStateName m, args = rest\<rparr>])"
    using runTransition_proceeds [OF assms(1), of forward] by (simp_all add: moved_def)
  have e: "transitionQueue m = [] \<Longrightarrow>
      currentStateName (snd (enterState newStateName rest m)) = newStateName \<and>
      previousStates (snd (enterState newStateName rest m)) =
        (if newStateName = initialStateName m then []
         else previousStates m @ [\<lparr>name = currentStateName m, args = rest\<rparr>])"
  proof -
    assume q: "transitionQueue m = []"
    have "proceeds (m\<lparr>transitioning := True\<rparr>) newStateName rest"
      using assms(1) by simp
    from runTransition_proceeds [OF this, of forward] show ?thesis
      by (simp add: enterState_single [OF q] alone_fields moved_def)
  qed
  from r s e show ?thesis by simp
qed

theorem enter_error_not_rolled_back_witness:
  "proceeds lateError ''state3'' [] \<and>
   getState lateError ''state3'' = Some (property [''enter'' \<mapsto> failsLate]) \<and>
   failsLate [] = Resolved (JError ''late'') \<and> instanceofError (JError ''late'') \<and>
   transitionQueue lateError = [] \<and>
   currentStateName lateError = ''state2'' \<and>
   previousStates lateError = [\<lparr>name = ''state1'', args = []\<rparr>] \<and>
   fst (runTransition (Request ''state3'' forward []) lateError) = Resolved (JError ''late'') \<and>
   currentStateName (snd (enterState ''state3'' [] lateError)) = ''state3'' \<and>
   previousStates (snd (enterState ''state3'' [] lateError)) =
     [\<lparr>name = ''state1'', args = []\<rparr>, \<lparr>name = ''state2'', args = []\<rparr>]"
proof -
  note le = lateError_eval
  have p: "proceeds lateError ''state3'' []"
    by (simp add: le newFSM_def proceeds_def leaves_def allows_def lookup_defs)
  have g: "getState lateError ''state3'' = Some (property [''enter'' \<mapsto> failsLate])"
    by (simp add: le newFSM_def lookup_defs)
  have n: "property [''enter'' \<mapsto> failsLate] ''enter'' = Some failsLate"
    by (simp add: property_def)
  have f: "failsLate [] = Resolved (JError ''late'')" by (simp add: failsLate_def)
  have i: "instanceofError (JError ''late'')" by simp
  have st: "transitionQueue lateError = []" "currentStateName lateError = ''state2''"
    "previousStates lateError = [\<lparr>name = ''state1'', args = []\<rparr>]"
    "initialStateName lateError = ''state1''"
    by (simp_all add: le newFSM_def)
  from enter_error_not_rolled_back [OF p g n f i] show ?thesis
    using p g f st by simp
qed

section \<open>Events raised without a current state definition\<close>

text \<open>
  The lookup on the current state also finds what every plain object inherits. Once
  \<open>initialState('constructor')\<close> has made \<open>constructor\<close> the current state of a machine
  on which nothing is registered, the lookup finds a function of the engine, nothing
  throws, and \<open>raiseEvent('enter')\<close> resolves with \<open>undefined\<close>.
\<close>

lemma raiseEvent_inherited_current_state:
  "states (snd (initialState ''constructor'' [] newFSM)) = Map.empty \<and>
   currentStateName (snd (initialState ''constructor'' [] newFSM)) = ''constructor'' \<and>
   fst (raiseEvent ''enter'' [] (snd (initialState ''constructor'' [] newFSM))) = Resolved JUndefined"
  by (simp add: newFSM_def initialState_def raiseEvent_def callHandler_def lookup_defs Let_def)




end
